theory Spec2Isabelle
  imports Complex_Main "HOL-Library.Multiset"
begin

section \<open>Tables\<close>

text \<open>
  The processing core of \<^verbatim>\<open>src/data_processor.py\<close> works on pandas tables. A table is
  modelled by the set of its column labels and the list of its rows. A row carries its
  \<^verbatim>\<open>date\<close> (the calendar date as a day number), the value of every numeric column by
  label (\<open>None\<close> is pandas' NaN, the missing value) and the value of the categorical
  column \<^verbatim>\<open>AQI_Category\<close>. The value of a row at a label is read only for labels that
  are columns of the table; every read of the source that pandas would answer with a
  \<^verbatim>\<open>KeyError\<close> is a branch of the model.

  A cell holds a real number. The AQI and pollutant values are pandas floats, and no
  statement below depends on how a float operation rounds them. The passenger counts
  are machine integers: their sums wrap around as int64 sums do, and where pandas keeps
  them as floats they are rounded as float64 rounds an integer (see the section on the
  transport events).

  A raw AQI table also tells which of its columns have the dtype \<^verbatim>\<open>object\<close> (a column
  of Python \<^verbatim>\<open>None\<close> or of strings instead of numbers): pandas refuses to interpolate
  such a column. Every table has its \<^verbatim>\<open>date\<close> column, parsed by the two load
  operations.

  The calendar columns (\<^verbatim>\<open>date_dt\<close>, \<^verbatim>\<open>day_of_week\<close>, \<^verbatim>\<open>month\<close>, \<^verbatim>\<open>is_weekend\<close>) are
  functions of the date of the row alone and are read by no operation below; the rows
  of the model do not carry them. The order of the columns of a table is not observable
  by label access, so the labels form a set.
\<close>

datatype category =
  Good | Moderate | Unhealthy_for_Sensitive | Unhealthy | Very_Unhealthy | Hazardous

record row =
  date :: int
  vals :: "string \<Rightarrow> real option"
  AQI_Category :: "category option"

record frame =
  columns :: "string set"
  rows :: "row list"

record aqi_frame = frame +
  object_cols :: "string set"

definition as_frame :: "'a frame_scheme \<Rightarrow> frame" where
  "as_frame df = \<lparr>columns = columns df, rows = rows df\<rparr>"

datatype error = ValueError | KeyError | AttributeError | TypeError

definition column :: "'a frame_scheme \<Rightarrow> string \<Rightarrow> real option list" where
  "column df c = map (\<lambda>r. vals r c) (rows df)"

text \<open>\<^verbatim>\<open>df[c] = xs\<close>: the label is added when it is new, the values go to the rows
  position by position (every list assigned below has one value per row).\<close>

definition assign ::
  "'a frame_scheme \<Rightarrow> string \<Rightarrow> real option list \<Rightarrow> 'a frame_scheme" where
  "assign df c xs =
     df\<lparr>columns := insert c (columns df),
        rows := map (\<lambda>(r, x). r\<lparr>vals := (vals r)(c := x)\<rparr>) (zip (rows df) xs)\<rparr>"

definition assign_category ::
  "'a frame_scheme \<Rightarrow> category option list \<Rightarrow> 'a frame_scheme" where
  "assign_category df cs =
     df\<lparr>columns := insert ''AQI_Category'' (columns df),
        rows := map (\<lambda>(r, c). r\<lparr>AQI_Category := c\<rparr>) (zip (rows df) cs)\<rparr>"

fun dropna :: "real option list \<Rightarrow> real list" where
  "dropna [] = []"
| "dropna (None # xs) = dropna xs"
| "dropna (Some x # xs) = x # dropna xs"

section \<open>Cleaning the AQI table\<close>

text \<open>
  \<^verbatim>\<open>Series.interpolate(method='linear')\<close> with its default direction (forward): the
  values are taken as equally spaced; a run of missing values between two valid ones is
  filled on the straight line between them, a run after the last valid value is filled
  with that value, a run before the first valid value stays missing.
  \<open>interp_run a n xs\<close> has seen the valid value \<open>a\<close> followed by \<open>n\<close> missing ones.
\<close>

fun interp_run :: "real \<Rightarrow> nat \<Rightarrow> real option list \<Rightarrow> real option list" where
  "interp_run a n [] = replicate n (Some a)"
| "interp_run a n (None # xs) = interp_run a (Suc n) xs"
| "interp_run a n (Some b # xs) =
     map (\<lambda>k. Some (a + (b - a) * real k / real (Suc n))) [1..<Suc n]
       @ Some b # interp_run b 0 xs"

fun interpolate :: "real option list \<Rightarrow> real option list" where
  "interpolate [] = []"
| "interpolate (None # xs) = None # interpolate xs"
| "interpolate (Some a # xs) = Some a # interp_run a 0 xs"

text \<open>\<^verbatim>\<open>Series.median()\<close> skips the missing values and is NaN when none is left.\<close>

definition median :: "real option list \<Rightarrow> real option" where
  "median xs =
     (let v = sort (dropna xs); n = length v in
      if n = 0 then None
      else if odd n then Some (v ! (n div 2))
      else Some ((v ! (n div 2 - 1) + v ! (n div 2)) / 2))"

text \<open>\<^verbatim>\<open>Series.fillna(m)\<close>: filling with NaN changes nothing.\<close>

definition fillna :: "real option list \<Rightarrow> real option \<Rightarrow> real option list" where
  "fillna xs m =
     (case m of
        None \<Rightarrow> xs
      | Some v \<Rightarrow> map (\<lambda>x. case x of None \<Rightarrow> Some v | Some y \<Rightarrow> Some y) xs)"

definition numeric_cols :: "string list" where
  "numeric_cols = [''AQI'', ''PM2.5'', ''PM10'', ''NO2'', ''Ozone'']"

text \<open>Lines 42 and 44, on a column of numbers.\<close>

definition interpolate_and_fill :: "string \<Rightarrow> 'a frame_scheme \<Rightarrow> 'a frame_scheme" where
  "interpolate_and_fill col aqi_df =
     (let df1 = assign aqi_df col (interpolate (column aqi_df col))
      in assign df1 col (fillna (column df1 col) (median (column df1 col))))"

text \<open>
  The body of the loop of \<^verbatim>\<open>process_aqi_data\<close> (lines 39 to 44): a declared column
  that the table does not have is skipped; on a column of dtype \<^verbatim>\<open>object\<close> the call
  of \<^verbatim>\<open>interpolate\<close> raises a \<^verbatim>\<open>TypeError\<close>. The loop stops at the first exception.
\<close>

definition clean_col :: "string \<Rightarrow> aqi_frame \<Rightarrow> error + aqi_frame" where
  "clean_col col aqi_df =
     (if col \<in> columns aqi_df then
        (if col \<in> object_cols aqi_df then Inl TypeError
         else Inr (interpolate_and_fill col aqi_df))
      else Inr aqi_df)"

fun clean_cols :: "string list \<Rightarrow> aqi_frame \<Rightarrow> error + aqi_frame" where
  "clean_cols [] aqi_df = Inr aqi_df"
| "clean_cols (col # cols) aqi_df =
     (case clean_col col aqi_df of
        Inl e \<Rightarrow> Inl e
      | Inr df \<Rightarrow> clean_cols cols df)"

text \<open>What the two lines do to the values of one column.\<close>

definition clean :: "real option list \<Rightarrow> real option list" where
  "clean xs = fillna (interpolate xs) (median (interpolate xs))"

text \<open>
  \<^verbatim>\<open>pd.cut(x, bins, labels, include_lowest=True)\<close> with the default \<^verbatim>\<open>right=True\<close>, as
  pandas computes it: the bin of a value is its insertion index in the sorted edges
  (\<^verbatim>\<open>searchsorted\<close>, side left: the number of edges below the value), a value equal to
  the lowest edge goes to the first bin, and a missing value, an index 0 (below the
  lowest edge) and an index equal to the number of edges (above the highest) give NaN.
\<close>

definition bins :: "real list" where
  "bins = [0, 50, 100, 150, 200, 300, 500]"

definition labels :: "category list" where
  "labels = [Good, Moderate, Unhealthy_for_Sensitive, Unhealthy, Very_Unhealthy, Hazardous]"

definition searchsorted_left :: "real list \<Rightarrow> real \<Rightarrow> nat" where
  "searchsorted_left bs x = length (takeWhile (\<lambda>b. b < x) bs)"

definition pd_cut :: "real option \<Rightarrow> category option" where
  "pd_cut v =
     (case v of
        None \<Rightarrow> None
      | Some x \<Rightarrow>
          (let i = (if x = hd bins then 1 else searchsorted_left bins x)
           in if i = 0 \<or> i = length bins then None else Some (labels ! (i - 1))))"

text \<open>
  \<^verbatim>\<open>process_aqi_data\<close>: the declared numeric columns that are present are cleaned, then
  the category column is derived from \<^verbatim>\<open>aqi_df['AQI']\<close>, a \<^verbatim>\<open>KeyError\<close> when the table has
  no such column. (No later operation of the model asks for the dtype of a column, so
  the result is a plain table.)
\<close>

definition process_aqi_data :: "aqi_frame \<Rightarrow> error + frame" where
  "process_aqi_data aqi_df =
     (case clean_cols numeric_cols aqi_df of
        Inl e \<Rightarrow> Inl e
      | Inr df \<Rightarrow>
          if ''AQI'' \<notin> columns df then Inl KeyError
          else Inr (as_frame (assign_category df (map pd_cut (column df ''AQI'')))))"

text \<open>The category the specification gives to a value of the domain \<open>[0, 500]\<close>.\<close>

definition spec_category :: "real \<Rightarrow> category" where
  "spec_category x =
     (if x \<le> 50 then Good
      else if x \<le> 100 then Moderate
      else if x \<le> 150 then Unhealthy_for_Sensitive
      else if x \<le> 200 then Unhealthy
      else if x \<le> 300 then Very_Unhealthy
      else Hazardous)"

definition mk_row :: "int \<Rightarrow> (string \<times> real) list \<Rightarrow> row" where
  "mk_row d kvs = \<lparr>date = d, vals = map_of kvs, AQI_Category = None\<rparr>"

definition frame_categories :: "frame \<Rightarrow> category option list" where
  "frame_categories df = map AQI_Category (rows df)"

definition frame_dates :: "frame \<Rightarrow> int list" where
  "frame_dates df = map date (rows df)"

section \<open>Reshaping the transport events\<close>

text \<open>
  A raw transport table has one row per event: a date, a mode and a passenger count.
\<close>

record transport_event =
  ev_date :: int
  mode :: string
  number_of_passengers :: int

text \<open>
  The passenger counts are an int64 column, and so are their sums: \<open>wrap64\<close> is the
  int64 value of an integer.
\<close>

definition wrap64 :: "int \<Rightarrow> int" where
  "wrap64 i = (i + 2 ^ 63) mod 2 ^ 64 - 2 ^ 63"

text \<open>
  The float64 value of an integer: up to \<open>2 ^ 53\<close> every integer is a float; above,
  the floats are the multiples of \<open>ulp\<close> (the power of two that leaves 53 significant
  bits) and an integer is rounded to the nearest one, a tie to the even multiple. The
  integers here are below \<open>2 ^ 65\<close> in size, far from the largest float.
\<close>

function ulp :: "nat \<Rightarrow> nat" where
  "ulp n = (if n < 2 ^ 53 then 1 else 2 * ulp (n div 2))"
  by pat_completeness auto
termination
  by (relation "measure id") auto

declare ulp.simps [simp del]

definition f64_nat :: "nat \<Rightarrow> nat" where
  "f64_nat n =
     (let u = ulp n; q = n div u; r = n mod u in
      if u < 2 * r \<or> (2 * r = u \<and> odd q) then (q + 1) * u else q * u)"

definition f64 :: "int \<Rightarrow> int" where
  "f64 i = sgn i * int (f64_nat (nat \<bar>i\<bar>))"

text \<open>
  \<^verbatim>\<open>pivot_table(index=[date, ...], columns='mode', values='number_of_passengers',
  aggfunc='sum')\<close>: one row per date that occurs, in ascending order of the date (the
  other index columns are functions of the date), one column per mode that occurs. The
  cell of a date and a mode is the int64 sum over the events of that date and mode;
  where there is no such event the cell is missing (no \<^verbatim>\<open>fill_value\<close> is given).

  The sums are unstacked as one block: when every date has an event of every mode the
  block stays int64, and when one cell is missing the whole block becomes float64, the
  sums rounded to floats. \<open>int_dtype\<close> tells the two cases apart.
\<close>

definition int_dtype :: "transport_event list \<Rightarrow> bool" where
  "int_dtype transport_df =
     list_all (\<lambda>d. list_all (\<lambda>m. filter (\<lambda>e. ev_date e = d \<and> mode e = m) transport_df \<noteq> [])
                          (remdups (map mode transport_df)))
       (remdups (map ev_date transport_df))"

definition pivot_cell :: "transport_event list \<Rightarrow> int \<Rightarrow> string \<Rightarrow> real option" where
  "pivot_cell transport_df d m =
     (let g = filter (\<lambda>e. ev_date e = d \<and> mode e = m) transport_df;
          s = wrap64 (sum_list (map number_of_passengers g)) in
      if g = [] then None
      else Some (real_of_int (if int_dtype transport_df then s else f64 s)))"

definition pivot_table :: "transport_event list \<Rightarrow> frame" where
  "pivot_table transport_df =
     \<lparr>columns = set (map mode transport_df),
      rows = map (\<lambda>d. \<lparr>date = d, vals = pivot_cell transport_df d, AQI_Category = None\<rparr>)
               (sort (remdups (map ev_date transport_df)))\<rparr>"

text \<open>
  \<^verbatim>\<open>reset_index()\<close> turns the five index levels into columns and raises a
  \<^verbatim>\<open>ValueError\<close> when a column of that label exists already, that is when one of
  them is a mode of the input.
\<close>

definition index_labels :: "string list" where
  "index_labels = [''date'', ''date_dt'', ''day_of_week'', ''month'', ''is_weekend'']"

text \<open>\<^verbatim>\<open>transport_pivot.get(c, 0)\<close>, read at one row: the column when the table has it,
  the number 0 otherwise.\<close>

definition get_col :: "frame \<Rightarrow> string \<Rightarrow> row \<Rightarrow> real option" where
  "get_col df c r = (if c \<in> columns df then vals r c else Some 0)"

text \<open>
  The sum of two cells of the pivot, which hold integers (\<open>\<lfloor>x + y\<rfloor>\<close> is their exact
  sum): an int64 sum that wraps around when the block is int64, the float64 sum
  otherwise, missing when one of the two cells is.
\<close>

definition add_cells :: "bool \<Rightarrow> real option \<Rightarrow> real option \<Rightarrow> real option" where
  "add_cells int64 a b =
     (case a of
        None \<Rightarrow> None
      | Some x \<Rightarrow>
          (case b of
             None \<Rightarrow> None
           | Some y \<Rightarrow> Some (real_of_int ((if int64 then wrap64 else f64) \<lfloor>x + y\<rfloor>))))"

definition process_transport_data :: "transport_event list \<Rightarrow> error + frame" where
  "process_transport_data transport_df =
     (if list_ex (\<lambda>e. mode e \<in> set index_labels) transport_df then Inl ValueError
      else
        (let transport_pivot = pivot_table transport_df in
         Inr (assign transport_pivot ''total_passengers''
                (map (\<lambda>r. add_cells (int_dtype transport_df)
                            (get_col transport_pivot ''bus'' r)
                            (get_col transport_pivot ''metro'' r))
                     (rows transport_pivot)))))"

section \<open>Merging\<close>

record processor =
  merged_data :: "frame option"

definition init :: processor where
  "init = \<lparr>merged_data = None\<rparr>"

definition endswith :: "string \<Rightarrow> string \<Rightarrow> bool" where
  "endswith c sfx = (length sfx \<le> length c \<and> drop (length c - length sfx) c = sfx)"

definition strip_suffix :: "string \<Rightarrow> string \<Rightarrow> string" where
  "strip_suffix sfx c = take (length c - length sfx) c"

text \<open>
  \<^verbatim>\<open>pd.merge(left, right, on='date', how='inner', suffixes=('_aqi', '_transport'))\<close>:
  one row for every pair of a left row and a right row of the same date, in the order
  of the left rows; a label that both tables have is renamed with the suffix of its
  side. (Suffixed labels are taken not to collide with labels already there.)
\<close>

definition merge_row :: "frame \<Rightarrow> frame \<Rightarrow> row \<Rightarrow> row \<Rightarrow> row" where
  "merge_row l r a t =
     \<lparr>date = date a,
      vals = (\<lambda>c.
        if c \<in> columns l - columns r then vals a c
        else if c \<in> columns r - columns l then vals t c
        else if endswith c ''_aqi'' \<and> strip_suffix ''_aqi'' c \<in> columns l \<inter> columns r
          then vals a (strip_suffix ''_aqi'' c)
        else if endswith c ''_transport''
            \<and> strip_suffix ''_transport'' c \<in> columns l \<inter> columns r
          then vals t (strip_suffix ''_transport'' c)
        else None),
      AQI_Category = AQI_Category a\<rparr>"

definition pd_merge :: "frame \<Rightarrow> frame \<Rightarrow> frame" where
  "pd_merge l r =
     \<lparr>columns = (\<lambda>c. if c \<in> columns r then c @ ''_aqi'' else c) ` columns l
               \<union> (\<lambda>c. if c \<in> columns l then c @ ''_transport'' else c) ` columns r,
      rows = concat (map (\<lambda>a. map (merge_row l r a)
                                 (filter (\<lambda>t. date t = date a) (rows r)))
                         (rows l))\<rparr>"

text \<open>Lines 109 and 110: every column whose label ends with one of the suffixes goes.\<close>

definition drop_suffixed :: "frame \<Rightarrow> frame" where
  "drop_suffixed df =
     df\<lparr>columns := {c \<in> columns df. \<not> (endswith c ''_aqi'' \<or> endswith c ''_transport'')}\<rparr>"

text \<open>
  \<^verbatim>\<open>sort_values('date').reset_index(drop=True)\<close>: the rows in ascending order of the
  date. (Rows of equal date keep their order here; the statements below do not depend
  on the order pandas gives to them.)
\<close>

definition sort_values_date :: "frame \<Rightarrow> frame" where
  "sort_values_date df = df\<lparr>rows := sort_key date (rows df)\<rparr>"

text \<open>
  \<^verbatim>\<open>merge_datasets\<close> returns the merged table and keeps it in \<^verbatim>\<open>self.merged_data\<close>; an
  exception of one of the two processing steps leaves the processor as it was.
\<close>

definition merge_datasets ::
  "processor \<Rightarrow> aqi_frame \<Rightarrow> transport_event list \<Rightarrow> error + (frame \<times> processor)" where
  "merge_datasets self aqi_df transport_df =
     (case process_aqi_data aqi_df of
        Inl e \<Rightarrow> Inl e
      | Inr aqi_processed \<Rightarrow>
          (case process_transport_data transport_df of
             Inl e \<Rightarrow> Inl e
           | Inr transport_processed \<Rightarrow>
               (let merged =
                      sort_values_date
                        (drop_suffixed (pd_merge aqi_processed transport_processed))
                in Inr (merged, self\<lparr>merged_data := Some merged\<rparr>))))"

section \<open>Correlations\<close>

text \<open>
  \<^verbatim>\<open>scipy.stats.pearsonr(x, y)\<close> is not code of this repository and computes in floating
  point. Its argument check is modelled (a \<^verbatim>\<open>ValueError\<close> when the two sequences differ
  in length, and when they have fewer than two values); its two results, the
  coefficient and the two-tailed p-value, are kept as terms over the two sequences it
  was given, and so is the comparison of the p-value with the threshold.
\<close>

datatype stat = PearsonR "real list" "real list" | PearsonP "real list" "real list"

datatype test = Below stat real

record entry =
  correlation :: stat
  p_value :: stat
  significant :: test

definition pearsonr :: "real list \<Rightarrow> real list \<Rightarrow> error + (stat \<times> stat)" where
  "pearsonr x y =
     (if length x \<noteq> length y then Inl ValueError
      else if length x < 2 then Inl ValueError
      else Inr (PearsonR x y, PearsonP x y))"

text \<open>\<^verbatim>\<open>d[k] = v\<close> on a dictionary, kept in insertion order.\<close>

fun dict_set :: "'k \<Rightarrow> 'v \<Rightarrow> ('k \<times> 'v) list \<Rightarrow> ('k \<times> 'v) list" where
  "dict_set k v [] = [(k, v)]"
| "dict_set k v (p # ps) = (if fst p = k then (k, v) # ps else p # dict_set k v ps)"

text \<open>The two nested loops of \<^verbatim>\<open>calculate_correlations\<close>, over the list of the pairs
  they visit; an exception of \<^verbatim>\<open>pearsonr\<close> ends the computation.\<close>

fun corr_loop ::
  "frame \<Rightarrow> (string \<times> string) list \<Rightarrow> (string \<times> entry) list \<Rightarrow> error + (string \<times> entry) list"
  where
  "corr_loop merged_df [] correlations = Inr correlations"
| "corr_loop merged_df ((aqi_col, transport_col) # ps) correlations =
     (if aqi_col \<in> columns merged_df \<and> transport_col \<in> columns merged_df then
        (case pearsonr (dropna (column merged_df aqi_col))
                       (dropna (column merged_df transport_col)) of
           Inl e \<Rightarrow> Inl e
         | Inr (corr_coef, p) \<Rightarrow>
             corr_loop merged_df ps
               (dict_set (aqi_col @ ''_vs_'' @ transport_col)
                  \<lparr>correlation = corr_coef, p_value = p, significant = Below p (5 / 100)\<rparr>
                  correlations))
      else corr_loop merged_df ps correlations)"

text \<open>The two lists of lines 127 and 128 (and of lines 170 and 182).\<close>

definition aqi_cols :: "string list" where
  "aqi_cols = [''AQI'', ''PM2.5'', ''PM10'', ''NO2'', ''Ozone'']"

definition transport_cols :: "string list" where
  "transport_cols = [''bus'', ''metro'', ''total_passengers'']"

text \<open>The table an operation works on: the argument, and the cached table when no
  argument is given.\<close>

definition current_table :: "processor \<Rightarrow> frame option \<Rightarrow> frame option" where
  "current_table self merged_df =
     (case merged_df of None \<Rightarrow> merged_data self | Some df \<Rightarrow> Some df)"

definition calculate_correlations ::
  "processor \<Rightarrow> frame option \<Rightarrow> error + (string \<times> entry) list" where
  "calculate_correlations self merged_df =
     (case current_table self merged_df of
        None \<Rightarrow> Inl ValueError
      | Some df \<Rightarrow>
          corr_loop df
            (List.product (filter (\<lambda>c. c \<in> columns df) aqi_cols)
                          (filter (\<lambda>c. c \<in> columns df) transport_cols))
            [])"

text \<open>
  What the specification asks of one metric pair: the rows in which both columns have
  a value, as pairs, in the order of the rows.
\<close>

fun dropna_pairs :: "(real option \<times> real option) list \<Rightarrow> (real \<times> real) list" where
  "dropna_pairs [] = []"
| "dropna_pairs ((Some x, Some y) # ps) = (x, y) # dropna_pairs ps"
| "dropna_pairs (_ # ps) = dropna_pairs ps"

definition pairwise_complete :: "frame \<Rightarrow> string \<Rightarrow> string \<Rightarrow> (real \<times> real) list" where
  "pairwise_complete df a t = dropna_pairs (zip (column df a) (column df t))"

section \<open>Summary statistics\<close>

text \<open>The pandas reductions skip the missing values; they are NaN on a column without
  values, and the sample standard deviation also on a column with a single value.\<close>

fun list_min :: "'a::linorder list \<Rightarrow> 'a option" where
  "list_min [] = None"
| "list_min (x # xs) = Some (fold min xs x)"

fun list_max :: "'a::linorder list \<Rightarrow> 'a option" where
  "list_max [] = None"
| "list_max (x # xs) = Some (fold max xs x)"

definition col_mean :: "real option list \<Rightarrow> real option" where
  "col_mean xs =
     (let v = dropna xs in if v = [] then None else Some (sum_list v / real (length v)))"

definition col_std :: "real option list \<Rightarrow> real option" where
  "col_std xs =
     (let v = dropna xs; n = length v; m = sum_list v / real n in
      if n < 2 then None
      else Some (sqrt (sum_list (map (\<lambda>x. (x - m)\<^sup>2) v) / real (n - 1))))"

record col_stats =
  st_mean :: "real option"
  st_median :: "real option"
  st_std :: "real option"
  st_min :: "real option"
  st_max :: "real option"

definition describe_col :: "frame \<Rightarrow> string \<Rightarrow> col_stats" where
  "describe_col df col =
     \<lparr>st_mean = col_mean (column df col),
      st_median = median (column df col),
      st_std = col_std (column df col),
      st_min = list_min (dropna (column df col)),
      st_max = list_max (dropna (column df col))\<rparr>"

text \<open>\<^verbatim>\<open>value_counts()\<close> of the categorical column: a count for each of the six
  categories, the missing values not counted (pandas orders the counts by size; the
  result is used as a dictionary, so the entries are listed here in the order of the
  categories).\<close>

definition value_counts :: "category option list \<Rightarrow> (category \<times> nat) list" where
  "value_counts cs = map (\<lambda>l. (l, length (filter (\<lambda>c. c = Some l) cs))) labels"

record summary =
  total_days :: nat
  date_range :: "int option \<times> int option"
  aqi_stats :: "(string \<times> col_stats) list"
  transport_stats :: "(string \<times> col_stats) list"
  aqi_category_distribution :: "(category \<times> nat) list option"

definition get_summary_statistics :: "processor \<Rightarrow> frame option \<Rightarrow> error + summary" where
  "get_summary_statistics self merged_df =
     (case current_table self merged_df of
        None \<Rightarrow> Inl ValueError
      | Some df \<Rightarrow>
          Inr \<lparr>total_days = length (rows df),
               date_range = (list_min (map date (rows df)), list_max (map date (rows df))),
               aqi_stats =
                 map (\<lambda>col. (col, describe_col df col))
                   (filter (\<lambda>c. c \<in> columns df) aqi_cols),
               transport_stats =
                 map (\<lambda>col. (col, describe_col df col))
                   (filter (\<lambda>c. c \<in> columns df) transport_cols),
               aqi_category_distribution =
                 (if ''AQI_Category'' \<in> columns df
                  then Some (value_counts (map AQI_Category (rows df))) else None)\<rparr>)"

section \<open>Lag and rolling features\<close>

text \<open>\<^verbatim>\<open>str\<close> of an integer, for the labels of the new columns.\<close>

function str_nat :: "nat \<Rightarrow> string" where
  "str_nat n = (if n < 10 then [''0123456789'' ! n] else str_nat (n div 10) @ [''0123456789'' ! (n mod 10)])"
  by pat_completeness auto
termination
  by (relation "measure id") auto

declare str_nat.simps [simp del]

definition str_int :: "int \<Rightarrow> string" where
  "str_int i = (if i < 0 then CHR ''-'' # str_nat (nat (- i)) else str_nat (nat i))"

text \<open>\<^verbatim>\<open>Series.shift(k)\<close>: the values move down by \<open>k\<close> rows (up when \<open>k\<close> is negative),
  the rows left free are missing.\<close>

definition shift :: "int \<Rightarrow> real option list \<Rightarrow> real option list" where
  "shift k xs =
     (if 0 \<le> k then take (length xs) (replicate (nat k) None @ xs)
      else drop (nat (- k)) xs @ replicate (min (nat (- k)) (length xs)) None)"

text \<open>\<^verbatim>\<open>rolling(window=w, min_periods=1).mean()\<close>: at each row the mean of the values of
  the last \<open>w\<close> rows up to it, missing when none of them has a value.\<close>

definition rolling_mean :: "nat \<Rightarrow> real option list \<Rightarrow> real option list" where
  "rolling_mean w xs =
     map (\<lambda>i. col_mean (drop (Suc i - w) (take (Suc i) xs))) [0..<length xs]"

fun add_lags :: "int list \<Rightarrow> frame \<Rightarrow> frame" where
  "add_lags [] merged_df = merged_df"
| "add_lags (lag # lags) merged_df =
     (let df1 = assign merged_df (''AQI_lag_'' @ str_int lag)
                  (shift lag (column merged_df ''AQI''));
          df2 = assign df1 (''total_passengers_lag_'' @ str_int lag)
                  (shift lag (column df1 ''total_passengers''))
      in add_lags lags df2)"

fun add_rolling :: "nat list \<Rightarrow> frame \<Rightarrow> frame" where
  "add_rolling [] merged_df = merged_df"
| "add_rolling (window # ws) merged_df =
     (let df1 = assign merged_df (''AQI_rolling_'' @ str_nat window @ ''d'')
                  (rolling_mean window (column merged_df ''AQI''));
          df2 = assign df1 (''total_passengers_rolling_'' @ str_nat window @ ''d'')
                  (rolling_mean window (column df1 ''total_passengers''))
      in add_rolling ws df2)"

text \<open>
  \<^verbatim>\<open>add_lag_features\<close>. Without an argument it copies the cached table, an
  \<^verbatim>\<open>AttributeError\<close> when there is none. It sorts the rows by date (line 208), then
  reads the columns \<^verbatim>\<open>AQI\<close> and \<^verbatim>\<open>total_passengers\<close>, a \<^verbatim>\<open>KeyError\<close> when one of
  them is not there (the rolling loop reads both whatever the lags are, and no new
  label is one of the two).
\<close>

definition add_lag_features ::
  "processor \<Rightarrow> frame option \<Rightarrow> int list \<Rightarrow> error + frame" where
  "add_lag_features self merged_df lag_days =
     (case current_table self merged_df of
        None \<Rightarrow> Inl AttributeError
      | Some df \<Rightarrow>
          (let sorted_df = sort_values_date df in
           if ''AQI'' \<notin> columns sorted_df \<or> ''total_passengers'' \<notin> columns sorted_df
           then Inl KeyError
           else Inr (add_rolling [3, 7, 14] (add_lags lag_days sorted_df))))"

text \<open>The labels of the columns that \<^verbatim>\<open>add_lag_features\<close> assigns.\<close>

definition lag_labels :: "int list \<Rightarrow> string set" where
  "lag_labels lag_days =
     (\<lambda>lag. ''AQI_lag_'' @ str_int lag) ` set lag_days
     \<union> (\<lambda>lag. ''total_passengers_lag_'' @ str_int lag) ` set lag_days"

definition rolling_labels :: "nat list \<Rightarrow> string set" where
  "rolling_labels ws =
     (\<lambda>w. ''AQI_rolling_'' @ str_nat w @ ''d'') ` set ws
     \<union> (\<lambda>w. ''total_passengers_rolling_'' @ str_nat w @ ''d'') ` set ws"

definition new_labels :: "int list \<Rightarrow> string set" where
  "new_labels lag_days = lag_labels lag_days \<union> rolling_labels [3, 7, 14]"

text \<open>A row without the cells of some labels, to compare what is left of two rows.\<close>

definition without_labels :: "string set \<Rightarrow> row \<Rightarrow> row" where
  "without_labels ls r = r\<lparr>vals := (\<lambda>c. if c \<in> ls then None else vals r c)\<rparr>"

section \<open>The pipeline of the dashboard\<close>

text \<open>
  \<^verbatim>\<open>load_data\<close> in \<^verbatim>\<open>src/dashboard.py\<close>, from the two loaded tables on: a new processor
  merges them, then computes the correlations and the summary of the merged table.
\<close>

definition load_data ::
  "aqi_frame \<Rightarrow> transport_event list
     \<Rightarrow> error + (frame \<times> (string \<times> entry) list \<times> summary \<times> processor)" where
  "load_data aqi_df transport_df =
     (case merge_datasets init aqi_df transport_df of
        Inl e \<Rightarrow> Inl e
      | Inr (merged_df, processor) \<Rightarrow>
          (case calculate_correlations processor (Some merged_df) of
             Inl e \<Rightarrow> Inl e
           | Inr correlations \<Rightarrow>
               (case get_summary_statistics processor (Some merged_df) of
                  Inl e \<Rightarrow> Inl e
                | Inr summary_stats \<Rightarrow>
                    Inr (merged_df, correlations, summary_stats, processor))))"

section \<open>Observations and example tables\<close>

text \<open>What the statements below read off a result.\<close>

definition column_of :: "string \<Rightarrow> frame \<Rightarrow> real option list" where
  "column_of c df = column df c"

definition merged_table :: "aqi_frame \<Rightarrow> transport_event list \<Rightarrow> error + frame" where
  "merged_table aqi_df transport_df = map_sum id fst (merge_datasets init aqi_df transport_df)"

definition pairs_of :: "string \<Rightarrow> string \<Rightarrow> frame \<Rightarrow> (real \<times> real) list" where
  "pairs_of a t df = pairwise_complete df a t"

text \<open>Raw AQI tables.\<close>

definition aqi_breakpoints :: aqi_frame where
  "aqi_breakpoints =
     \<lparr>columns = {''AQI''},
      rows = [mk_row 1 [(''AQI'', 0)], mk_row 2 [(''AQI'', 50)],
              mk_row 3 [(''AQI'', 51)], mk_row 4 [(''AQI'', 500)]],
      object_cols = {}\<rparr>"

definition aqi_out_of_domain :: aqi_frame where
  "aqi_out_of_domain =
     \<lparr>columns = {''AQI''},
      rows = [mk_row 1 [(''AQI'', 80)], mk_row 2 [(''AQI'', 501)],
              mk_row 3 [(''AQI'', - 1)]],
      object_cols = {}\<rparr>"




definition aqi_two_days :: aqi_frame where
  "aqi_two_days =
     \<lparr>columns = {''AQI''}, rows = [mk_row 1 [(''AQI'', 80)], mk_row 2 [(''AQI'', 120)]],
      object_cols = {}\<rparr>"

definition aqi_three_days :: aqi_frame where
  "aqi_three_days =
     \<lparr>columns = {''AQI''},
      rows = [mk_row 3 [(''AQI'', 100)], mk_row 1 [(''AQI'', 80)], mk_row 2 [(''AQI'', 120)]],
      object_cols = {}\<rparr>"

text \<open>Raw transport tables. The two-day tables are the end-to-end scenario of the
  specification.\<close>

definition mk_event :: "int \<Rightarrow> string \<Rightarrow> int \<Rightarrow> transport_event" where
  "mk_event d m n = \<lparr>ev_date = d, mode = m, number_of_passengers = n\<rparr>"

definition tram_events :: "transport_event list" where
  "tram_events = [mk_event 1 ''tram'' 7, mk_event 1 ''bus'' 3]"

definition events_two_days :: "transport_event list" where
  "events_two_days =
     [mk_event 1 ''bus'' 100, mk_event 1 ''metro'' 200, mk_event 2 ''bus'' 50]"

definition events_overflow :: "transport_event list" where
  "events_overflow = [mk_event 1 ''bus'' (2 ^ 62), mk_event 1 ''metro'' (2 ^ 62)]"

definition events_late :: "transport_event list" where
  "events_late =
     [mk_event 4 ''bus'' 10, mk_event 2 ''bus'' 20, mk_event 3 ''metro'' 30,
      mk_event 2 ''metro'' 5]"

definition events_gap :: "transport_event list" where
  "events_gap =
     [mk_event 1 ''bus'' 100, mk_event 1 ''metro'' 200, mk_event 2 ''metro'' 50,
      mk_event 3 ''bus'' 70, mk_event 3 ''metro'' 30]"

text \<open>Merged tables given to an operation directly.\<close>

definition merged_two_days :: frame where
  "merged_two_days =
     \<lparr>columns = {''AQI'', ''AQI_Category'', ''bus'', ''metro'', ''total_passengers''},
      rows = [(mk_row 1 [(''AQI'', 80), (''bus'', 100), (''metro'', 200),
                         (''total_passengers'', 300)])\<lparr>AQI_Category := Some Moderate\<rparr>,
              (mk_row 2 [(''AQI'', 120), (''bus'', 50)])
                 \<lparr>AQI_Category := Some Unhealthy_for_Sensitive\<rparr>]\<rparr>"

definition misaligned :: frame where
  "misaligned =
     \<lparr>columns = {''AQI'', ''bus''},
      rows = [mk_row 1 [(''AQI'', 1)], mk_row 2 [(''bus'', 5)],
              mk_row 3 [(''AQI'', 3), (''bus'', 6)], mk_row 4 [(''AQI'', 4), (''bus'', 7)]]\<rparr>"

definition merged_unsorted :: frame where
  "merged_unsorted =
     \<lparr>columns = {''AQI'', ''total_passengers''},
      rows = [mk_row 2 [(''AQI'', 120), (''total_passengers'', 50)],
              mk_row 1 [(''AQI'', 80), (''total_passengers'', 300)]]\<rparr>"

section \<open>Facts about cleaning\<close>

lemma pd_cut_in_domain:
  assumes "0 \<le> x" "x \<le> 500"
  shows "pd_cut (Some x) = Some (spec_category x)"
proof -
  consider "x = 0" | "0 < x" "x \<le> 50" | "50 < x" "x \<le> 100" | "100 < x" "x \<le> 150"
    | "150 < x" "x \<le> 200" | "200 < x" "x \<le> 300" | "300 < x" "x \<le> 500"
    using assms by linarith
  then show ?thesis
    by cases
      (simp_all add: pd_cut_def bins_def labels_def searchsorted_left_def spec_category_def)
qed

lemma pd_cut_out_of_domain:
  assumes "x < 0 \<or> 500 < x"
  shows "pd_cut (Some x) = None"
  using assms
  by (auto simp: pd_cut_def bins_def labels_def searchsorted_left_def)

lemma length_interp_run: "length (interp_run a n xs) = n + length xs"
  by (induction a n xs rule: interp_run.induct) auto

lemma length_interpolate: "length (interpolate xs) = length xs"
  by (induction xs rule: interpolate.induct) (auto simp: length_interp_run)

lemma length_fillna: "length (fillna xs m) = length xs"
  by (simp add: fillna_def split: option.splits)

lemma length_column: "length (column df c) = length (rows df)"
  by (simp add: column_def)

lemma zip_rows_map: "zip xs (map f xs) = map (\<lambda>x. (x, f x)) xs"
  by (induction xs) auto

lemma columns_assign: "columns (assign df c xs) = insert c (columns df)"
  by (simp add: assign_def)

lemma map_zip_fst:
  "length xs = length ys \<Longrightarrow> map (\<lambda>(r, x). f r) (zip xs ys) = map f xs"
  by (induction xs ys rule: list_induct2) auto

lemma map_zip_snd:
  "length xs = length ys \<Longrightarrow> map (\<lambda>(r, x). g x) (zip xs ys) = map g ys"
  by (induction xs ys rule: list_induct2) auto

lemma length_rows_assign:
  "length xs = length (rows df) \<Longrightarrow> length (rows (assign df c xs)) = length (rows df)"
  by (simp add: assign_def)

lemma dates_assign:
  "length xs = length (rows df) \<Longrightarrow> map date (rows (assign df c xs)) = map date (rows df)"
  using map_zip_fst [of "rows df" xs date]
  by (simp add: assign_def case_prod_unfold comp_def)

lemma categories_assign:
  "length xs = length (rows df) \<Longrightarrow>
   map AQI_Category (rows (assign df c xs)) = map AQI_Category (rows df)"
  using map_zip_fst [of "rows df" xs AQI_Category]
  by (simp add: assign_def case_prod_unfold comp_def)

lemma column_assign_same:
  "length xs = length (rows df) \<Longrightarrow> column (assign df c xs) c = xs"
  using map_zip_snd [of "rows df" xs "\<lambda>x. x"]
  by (simp add: assign_def column_def case_prod_unfold comp_def)

lemma column_assign_other:
  "length xs = length (rows df) \<Longrightarrow> c' \<noteq> c \<Longrightarrow> column (assign df c xs) c' = column df c'"
  using map_zip_fst [of "rows df" xs "\<lambda>r. vals r c'"]
  by (simp add: assign_def column_def case_prod_unfold comp_def)

lemma length_clean: "length (clean xs) = length xs"
  by (simp add: clean_def length_fillna length_interpolate)

lemma columns_interpolate_and_fill:
  "columns (interpolate_and_fill c df) = insert c (columns df)"
  by (simp add: interpolate_and_fill_def Let_def columns_assign)

lemma dates_interpolate_and_fill:
  "map date (rows (interpolate_and_fill c df)) = map date (rows df)"
  by (simp add: interpolate_and_fill_def Let_def dates_assign length_rows_assign length_fillna
      length_interpolate length_column)

lemma column_interpolate_and_fill:
  "column (interpolate_and_fill c df) c' = (if c' = c then clean (column df c) else column df c')"
  by (simp add: interpolate_and_fill_def Let_def clean_def column_assign_same
      column_assign_other length_rows_assign length_fillna length_interpolate length_column)

lemma object_cols_interpolate_and_fill:
  "object_cols (interpolate_and_fill c df) = object_cols df"
  by (simp add: interpolate_and_fill_def Let_def assign_def)

lemma clean_col_Inr:
  assumes "clean_col c df = Inr df'"
  shows "columns df' = columns df" and "map date (rows df') = map date (rows df)"
    and "object_cols df' = object_cols df"
    and "column df' c' = (if c' = c \<and> c \<in> columns df then clean (column df c) else column df c')"
  using assms
  by (auto simp: clean_col_def columns_interpolate_and_fill dates_interpolate_and_fill
      object_cols_interpolate_and_fill column_interpolate_and_fill split: if_splits)

lemma clean_col_returns:
  "a \<notin> columns df \<or> a \<notin> object_cols df \<Longrightarrow> \<exists>d. clean_col a df = Inr d"
  by (cases "a \<in> columns df") (simp_all add: clean_col_def)

lemma clean_cols_frame:
  "clean_cols cs df = Inr df' \<Longrightarrow>
   columns df' = columns df \<and> map date (rows df') = map date (rows df)"
proof (induction cs arbitrary: df)
  case Nil
  then show ?case by simp
next
  case (Cons a cs)
  from Cons.prems obtain d where d: "clean_col a df = Inr d" and r: "clean_cols cs d = Inr df'"
    by (auto split: sum.splits)
  from Cons.IH [OF r] clean_col_Inr(1,2) [OF d] show ?case
    by simp
qed

lemma clean_cols_column:
  "clean_cols cs df = Inr df' \<Longrightarrow> distinct cs \<Longrightarrow>
   column df' c = (if c \<in> set cs \<and> c \<in> columns df then clean (column df c) else column df c)"
proof (induction cs arbitrary: df)
  case Nil
  then show ?case by simp
next
  case (Cons a cs)
  from Cons.prems obtain d where d: "clean_col a df = Inr d" and r: "clean_cols cs d = Inr df'"
    by (auto split: sum.splits)
  from Cons.prems have dist: "distinct cs" and a: "a \<notin> set cs"
    by simp_all
  have ih: "column df' c =
      (if c \<in> set cs \<and> c \<in> columns d then clean (column d c) else column d c)"
    by (rule Cons.IH [OF r dist])
  have cols: "columns d = columns df"
    by (rule clean_col_Inr(1) [OF d])
  have cd: "column d c = (if c = a \<and> a \<in> columns df then clean (column df a) else column df c)"
    by (rule clean_col_Inr(4) [OF d])
  show ?case
  proof (cases "c = a")
    case True
    with a ih cd show ?thesis by simp
  next
    case False
    with ih cd cols show ?thesis by simp
  qed
qed

lemma clean_cols_returns:
  "set cs \<inter> columns df \<inter> object_cols df = {} \<Longrightarrow> \<exists>df'. clean_cols cs df = Inr df'"
proof (induction cs arbitrary: df)
  case Nil
  then show ?case by simp
next
  case (Cons a cs)
  from Cons.prems have "a \<notin> columns df \<or> a \<notin> object_cols df"
    by auto
  then obtain d where d: "clean_col a df = Inr d"
    using clean_col_returns by blast
  from Cons.prems clean_col_Inr(1,3) [OF d]
  have "set cs \<inter> columns d \<inter> object_cols d = {}"
    by auto
  from Cons.IH [OF this] d show ?case
    by simp
qed


lemma rows_assign_category_cut:
  "rows (assign_category df (map f (column df c))) =
     map (\<lambda>r. r\<lparr>AQI_Category := f (vals r c)\<rparr>) (rows df)"
  by (simp add: assign_category_def column_def zip_rows_map comp_def)

lemma process_aqi_data_Inr:
  assumes "process_aqi_data df = Inr out"
  obtains df' where "clean_cols numeric_cols df = Inr df'" and "''AQI'' \<in> columns df"
    and "rows out = map (\<lambda>r. r\<lparr>AQI_Category := pd_cut (vals r ''AQI'')\<rparr>) (rows df')"
    and "columns out = insert ''AQI_Category'' (columns df)"
proof -
  from assms obtain df' where c: "clean_cols numeric_cols df = Inr df'"
    and a: "''AQI'' \<in> columns df'"
    and out: "out = as_frame (assign_category df' (map pd_cut (column df' ''AQI'')))"
    by (auto simp: process_aqi_data_def split: sum.splits if_splits)
  have cols: "columns df' = columns df"
    using clean_cols_frame [OF c] by simp
  have "rows out = map (\<lambda>r. r\<lparr>AQI_Category := pd_cut (vals r ''AQI'')\<rparr>) (rows df')"
    unfolding out by (simp add: as_frame_def rows_assign_category_cut)
  moreover have "columns out = insert ''AQI_Category'' (columns df)"
    unfolding out by (simp add: as_frame_def assign_category_def cols)
  ultimately show thesis
    using that c a cols by simp
qed

lemma process_aqi_data_returns:
  assumes "''AQI'' \<in> columns df" and "set numeric_cols \<inter> columns df \<inter> object_cols df = {}"
  shows "\<exists>out. process_aqi_data df = Inr out"
proof -
  from clean_cols_returns [OF assms(2)] obtain df' where c: "clean_cols numeric_cols df = Inr df'"
    by blast
  with assms(1) clean_cols_frame [OF c] show ?thesis
    by (simp add: process_aqi_data_def)
qed



lemma process_aqi_data_rows:
  assumes "process_aqi_data df = Inr out"
  shows "columns out = insert ''AQI_Category'' (columns df)" and "''AQI'' \<in> columns df"
    and "r \<in> set (rows out) \<Longrightarrow> AQI_Category r = pd_cut (vals r ''AQI'')"
proof -
  from assms obtain df' where "clean_cols numeric_cols df = Inr df'"
    and a: "''AQI'' \<in> columns df"
    and r: "rows out = map (\<lambda>r. r\<lparr>AQI_Category := pd_cut (vals r ''AQI'')\<rparr>) (rows df')"
    and c: "columns out = insert ''AQI_Category'' (columns df)"
    by (rule process_aqi_data_Inr)
  show "columns out = insert ''AQI_Category'' (columns df)" by (rule c)
  show "''AQI'' \<in> columns df" by (rule a)
  show "AQI_Category r = pd_cut (vals r ''AQI'')" if "r \<in> set (rows out)"
  proof -
    from that obtain r0 where "r = r0\<lparr>AQI_Category := pd_cut (vals r0 ''AQI'')\<rparr>"
      unfolding r by auto
    then show ?thesis by simp
  qed
qed

lemma process_aqi_data_dates:
  assumes "process_aqi_data df = Inr out"
  shows "map date (rows out) = map date (rows df)"
proof -
  from assms obtain df' where c: "clean_cols numeric_cols df = Inr df'"
    and "''AQI'' \<in> columns df"
    and r: "rows out = map (\<lambda>r. r\<lparr>AQI_Category := pd_cut (vals r ''AQI'')\<rparr>) (rows df')"
    and "columns out = insert ''AQI_Category'' (columns df)"
    by (rule process_aqi_data_Inr)
  from clean_cols_frame [OF c] r show ?thesis
    by (simp add: comp_def)
qed

lemma process_aqi_data_column:
  assumes "process_aqi_data df = Inr out"
  shows "column out c =
     (if c \<in> set numeric_cols \<and> c \<in> columns df then clean (column df c) else column df c)"
proof -
  from assms obtain df' where c: "clean_cols numeric_cols df = Inr df'"
    and "''AQI'' \<in> columns df"
    and r: "rows out = map (\<lambda>r. r\<lparr>AQI_Category := pd_cut (vals r ''AQI'')\<rparr>) (rows df')"
    and "columns out = insert ''AQI_Category'' (columns df)"
    by (rule process_aqi_data_Inr)
  have "column out c = column df' c"
    using r by (simp add: column_def comp_def)
  moreover have "distinct numeric_cols"
    by (simp add: numeric_cols_def)
  ultimately show ?thesis
    using clean_cols_column [OF c, of c] by simp
qed

lemma process_aqi_data_categories:
  assumes "process_aqi_data df = Inr out"
  shows "frame_categories out = map pd_cut (column out ''AQI'')"
proof -
  have "\<forall>r\<in>set (rows out). AQI_Category r = pd_cut (vals r ''AQI'')"
    using process_aqi_data_rows(3) [OF assms] by blast
  then show ?thesis
    by (simp add: frame_categories_def column_def)
qed

lemma interpolate_example: "interpolate [Some 40, None, Some 60] = [Some 40, Some 50, Some 60]"
  by (simp add: upt_rec)

lemma interp_run_keeps:
  "i < length xs \<Longrightarrow> xs ! i = Some x \<Longrightarrow> interp_run a n xs ! (n + i) = Some x"
proof (induction a n xs arbitrary: i rule: interp_run.induct)
  case (1 a n)
  then show ?case by simp
next
  case (2 a n xs)
  then show ?case by (cases i) auto
next
  case (3 a n b xs)
  let ?pre = "map (\<lambda>k. Some (a + (b - a) * real k / real (Suc n))) [1..<Suc n]"
  have len: "length ?pre = n" by simp
  have "(?pre @ Some b # interp_run b 0 xs) ! (length ?pre + i) = (Some b # interp_run b 0 xs) ! i"
    by (rule nth_append_length_plus)
  then have eq: "interp_run a n (Some b # xs) ! (n + i) = (Some b # interp_run b 0 xs) ! i"
    by (simp only: interp_run.simps len)
  show ?case
  proof (cases i)
    case 0
    with 3 eq show ?thesis by simp
  next
    case (Suc j)
    with 3 have "interp_run b 0 xs ! (0 + j) = Some x" by simp
    with Suc eq show ?thesis by simp
  qed
qed

lemma interpolate_keeps:
  "i < length xs \<Longrightarrow> xs ! i = Some x \<Longrightarrow> interpolate xs ! i = Some x"
proof (induction xs arbitrary: i rule: interpolate.induct)
  case 1
  then show ?case by simp
next
  case (2 xs)
  then show ?case by (cases i) auto
next
  case (3 a xs)
  then show ?case using interp_run_keeps [of _ xs x a 0] by (cases i) auto
qed

lemma fillna_keeps:
  "i < length xs \<Longrightarrow> xs ! i = Some x \<Longrightarrow> fillna xs m ! i = Some x"
  by (simp add: fillna_def split: option.splits)

lemma clean_keeps:
  "i < length xs \<Longrightarrow> xs ! i = Some x \<Longrightarrow> clean xs ! i = Some x"
  by (simp add: clean_def fillna_keeps interpolate_keeps length_interpolate)

lemma dropna_empty_iff: "dropna xs = [] \<longleftrightarrow> (\<forall>v\<in>set xs. v = None)"
  by (induction xs rule: dropna.induct) auto



lemma length_rows_process_aqi:
  assumes "process_aqi_data df = Inr out"
  shows "length (rows out) = length (rows df)"
  using arg_cong [OF process_aqi_data_dates [OF assms], of length] by simp

lemma process_aqi_column_eval:
  assumes "process_aqi_data df = Inr out" and "c \<in> set numeric_cols" and "c \<in> columns df"
    and "clean (column df c) = ys"
  shows "column out c = ys"
  using assms by (simp add: process_aqi_data_column)

section \<open>The claims about cleaning and binning\<close>

text \<open>
  Claim C4. In every table that \<^verbatim>\<open>process_aqi_data\<close> returns, a row whose AQI value lies
  in \<open>[0, 500]\<close> has the category of the fixed breakpoints: \<open>[0, 50]\<close> is Good,
  \<open>(50, 100]\<close> is Moderate, \<open>(100, 150]\<close> is Unhealthy for Sensitive, \<open>(150, 200]\<close> is
  Unhealthy, \<open>(200, 300]\<close> is Very Unhealthy and \<open>(300, 500]\<close> is Hazardous. The witness
  runs the four boundary values 0, 50, 51 and 500.
\<close>

theorem aqi_category_breakpoints:
  assumes "process_aqi_data aqi_df = Inr out" and "r \<in> set (rows out)"
    and "vals r ''AQI'' = Some x" and "0 \<le> x" and "x \<le> 500"
  shows "(x \<le> 50 \<longrightarrow> AQI_Category r = Some Good)
       \<and> (50 < x \<and> x \<le> 100 \<longrightarrow> AQI_Category r = Some Moderate)
       \<and> (100 < x \<and> x \<le> 150 \<longrightarrow> AQI_Category r = Some Unhealthy_for_Sensitive)
       \<and> (150 < x \<and> x \<le> 200 \<longrightarrow> AQI_Category r = Some Unhealthy)
       \<and> (200 < x \<and> x \<le> 300 \<longrightarrow> AQI_Category r = Some Very_Unhealthy)
       \<and> (300 < x \<longrightarrow> AQI_Category r = Some Hazardous)"
proof -
  from assms(1,2) have "AQI_Category r = pd_cut (vals r ''AQI'')"
    by (rule process_aqi_data_rows(3))
  then have "AQI_Category r = Some (spec_category x)"
    using assms(3-5) by (simp add: pd_cut_in_domain)
  then show ?thesis
    by (simp add: spec_category_def)
qed

theorem aqi_category_breakpoints_witness:
  "map_sum id frame_categories (process_aqi_data aqi_breakpoints)
     = Inr [Some Good, Some Good, Some Moderate, Some Hazardous]"
proof -
  obtain out where o: "process_aqi_data aqi_breakpoints = Inr out"
    using process_aqi_data_returns [of aqi_breakpoints] by (auto simp: aqi_breakpoints_def)
  have "column out ''AQI'' = [Some 0, Some 50, Some 51, Some 500]"
    by (rule process_aqi_column_eval [OF o])
      (simp_all add: numeric_cols_def aqi_breakpoints_def column_def mk_row_def clean_def
        median_def fillna_def)
  then obtain r0 r1 r2 r3 where rs: "rows out = [r0, r1, r2, r3]"
    and v: "vals r0 ''AQI'' = Some 0" "vals r1 ''AQI'' = Some 50"
      "vals r2 ''AQI'' = Some 51" "vals r3 ''AQI'' = Some 500"
    by (auto simp: column_def map_eq_Cons_conv)
  have "AQI_Category r0 = Some Good"
    using aqi_category_breakpoints [OF o, of r0 0] rs v by simp
  moreover have "AQI_Category r1 = Some Good"
    using aqi_category_breakpoints [OF o, of r1 50] rs v by simp
  moreover have "AQI_Category r2 = Some Moderate"
    using aqi_category_breakpoints [OF o, of r2 51] rs v by simp
  moreover have "AQI_Category r3 = Some Hazardous"
    using aqi_category_breakpoints [OF o, of r3 500] rs v by simp
  ultimately show ?thesis
    by (simp add: o frame_categories_def rs)
qed

text \<open>
  Claim C5, as the code has it. The claim asks for Hazardous above 500 and for a
  validation error on a negative value; the counterexample processes the values 80,
  501 and -1 without an error and leaves the last two without a category. What holds,
  for a table that has the \<^verbatim>\<open>AQI\<close> column and whose declared columns hold numbers
  (none of them has the dtype \<^verbatim>\<open>object\<close>, on which \<^verbatim>\<open>interpolate\<close> raises): a
  value of the input above 500 or below 0 is kept as it is, processing returns a table,
  and the category of that row is missing.
\<close>

theorem aqi_out_of_domain_uncategorized:
  assumes "''AQI'' \<in> columns aqi_df"
    and "set numeric_cols \<inter> columns aqi_df \<inter> object_cols aqi_df = {}"
    and "i < length (rows aqi_df)"
    and "vals (rows aqi_df ! i) ''AQI'' = Some x" and "x < 0 \<or> 500 < x"
  shows "\<exists>out. process_aqi_data aqi_df = Inr out
           \<and> length (rows out) = length (rows aqi_df)
           \<and> vals (rows out ! i) ''AQI'' = Some x
           \<and> AQI_Category (rows out ! i) = None"
proof -
  from assms(1,2) obtain out where o: "process_aqi_data aqi_df = Inr out"
    using process_aqi_data_returns by blast
  have len: "length (rows out) = length (rows aqi_df)"
    by (rule length_rows_process_aqi [OF o])
  have "column out ''AQI'' = clean (column aqi_df ''AQI'')"
    using assms(1) by (simp add: process_aqi_data_column [OF o] numeric_cols_def)
  moreover have "clean (column aqi_df ''AQI'') ! i = Some x"
    using assms(3,4) by (intro clean_keeps) (simp_all add: column_def)
  ultimately have "column out ''AQI'' ! i = Some x"
    by simp
  then have v: "vals (rows out ! i) ''AQI'' = Some x"
    using assms(3) len by (simp add: column_def)
  have "rows out ! i \<in> set (rows out)"
    using assms(3) len by simp
  then have "AQI_Category (rows out ! i) = pd_cut (vals (rows out ! i) ''AQI'')"
    by (rule process_aqi_data_rows(3) [OF o])
  then have "AQI_Category (rows out ! i) = None"
    using assms(5) v by (simp add: pd_cut_out_of_domain)
  with o len v show ?thesis by blast
qed

theorem aqi_out_of_domain_uncategorized_witness:
  "''AQI'' \<in> columns aqi_out_of_domain
   \<and> set numeric_cols \<inter> columns aqi_out_of_domain \<inter> object_cols aqi_out_of_domain = {}
   \<and> 2 < length (rows aqi_out_of_domain)
   \<and> vals (rows aqi_out_of_domain ! 1) ''AQI'' = Some 501 \<and> (500 :: real) < 501
   \<and> vals (rows aqi_out_of_domain ! 2) ''AQI'' = Some (- 1) \<and> (- 1 :: real) < 0
   \<and> (\<exists>out. process_aqi_data aqi_out_of_domain = Inr out
          \<and> length (rows out) = length (rows aqi_out_of_domain)
          \<and> vals (rows out ! 1) ''AQI'' = Some 501
          \<and> AQI_Category (rows out ! 1) = None
          \<and> vals (rows out ! 2) ''AQI'' = Some (- 1)
          \<and> AQI_Category (rows out ! 2) = None)"
  using aqi_out_of_domain_uncategorized [of aqi_out_of_domain 1 501]
    aqi_out_of_domain_uncategorized [of aqi_out_of_domain 2 "- 1"]
  by (auto simp: aqi_out_of_domain_def mk_row_def)

theorem aqi_out_of_domain_counterexample:
  "map_sum id frame_categories (process_aqi_data aqi_out_of_domain)
     = Inr [Some Moderate, None, None]"
proof -
  obtain out where o: "process_aqi_data aqi_out_of_domain = Inr out"
    using process_aqi_data_returns [of aqi_out_of_domain]
    by (auto simp: aqi_out_of_domain_def)
  have "column out ''AQI'' = [Some 80, Some 501, Some (- 1)]"
    by (rule process_aqi_column_eval [OF o])
      (simp_all add: numeric_cols_def aqi_out_of_domain_def column_def mk_row_def clean_def
        median_def fillna_def)
  then have "frame_categories out = [Some Moderate, None, None]"
    by (simp add: process_aqi_data_categories [OF o] pd_cut_def bins_def labels_def
        searchsorted_left_def)
  then show ?thesis
    by (simp add: o)
qed




section \<open>Facts about the transport table and the merge\<close>

lemma process_transport_data_cases:
  "process_transport_data T =
     (if list_ex (\<lambda>e. mode e \<in> set index_labels) T then Inl ValueError
      else Inr (assign (pivot_table T) ''total_passengers''
                  (map (\<lambda>r. add_cells (int_dtype T) (get_col (pivot_table T) ''bus'' r)
                                      (get_col (pivot_table T) ''metro'' r))
                       (rows (pivot_table T)))))"
  by (simp add: process_transport_data_def Let_def)

lemma rows_assign_map:
  "rows (assign df c (map f (rows df))) = map (\<lambda>r. r\<lparr>vals := (vals r)(c := f r)\<rparr>) (rows df)"
  by (simp add: assign_def zip_rows_map)

lemma process_transport_data_rows:
  assumes "process_transport_data T = Inr tp"
  shows "rows tp =
           map (\<lambda>r. r\<lparr>vals := (vals r)(''total_passengers'' :=
                    add_cells (int_dtype T) (get_col (pivot_table T) ''bus'' r)
                              (get_col (pivot_table T) ''metro'' r))\<rparr>)
               (rows (pivot_table T))"
    and "columns tp = insert ''total_passengers'' (mode ` set T)"
proof -
  from assms have tp: "tp = assign (pivot_table T) ''total_passengers''
                  (map (\<lambda>r. add_cells (int_dtype T) (get_col (pivot_table T) ''bus'' r)
                                      (get_col (pivot_table T) ''metro'' r))
                       (rows (pivot_table T)))"
    by (simp add: process_transport_data_cases split: if_splits)
  show "rows tp =
           map (\<lambda>r. r\<lparr>vals := (vals r)(''total_passengers'' :=
                    add_cells (int_dtype T) (get_col (pivot_table T) ''bus'' r)
                              (get_col (pivot_table T) ''metro'' r))\<rparr>)
               (rows (pivot_table T))"
    unfolding tp by (rule rows_assign_map)
  show "columns tp = insert ''total_passengers'' (mode ` set T)"
    unfolding tp by (simp add: columns_assign pivot_table_def)
qed

lemma process_transport_data_dates:
  assumes "process_transport_data T = Inr tp"
  shows "map date (rows tp) = sort (remdups (map ev_date T))"
  by (simp add: process_transport_data_rows(1) [OF assms] comp_def pivot_table_def)

lemma get_col_processed:
  assumes "process_transport_data T = Inr tp" and "c \<noteq> ''total_passengers''"
    and "r0 \<in> set (rows (pivot_table T))"
  shows "get_col tp c
           (r0\<lparr>vals := (vals r0)(''total_passengers'' := v)\<rparr>) = get_col (pivot_table T) c r0"
  using assms(2)
  by (auto simp: get_col_def process_transport_data_rows(2) [OF assms(1)] pivot_table_def)

lemma wrap64_small: "- (2 ^ 63) \<le> i \<Longrightarrow> i < 2 ^ 63 \<Longrightarrow> wrap64 i = i"
proof -
  assume "- (2 ^ 63) \<le> i" and "i < 2 ^ 63"
  then have "(i + 2 ^ 63) mod 2 ^ 64 = i + 2 ^ 63"
    by (intro mod_pos_pos_trivial) simp_all
  then show ?thesis
    by (simp add: wrap64_def)
qed

lemma ulp_small: "n < 2 ^ 53 \<Longrightarrow> ulp n = 1"
  by (simp add: ulp.simps)

lemma ulp_2_53: "ulp (2 ^ 53) = 2"
  by (subst ulp.simps) (simp add: ulp_small)

lemma f64_nat_small: "n \<le> 2 ^ 53 \<Longrightarrow> f64_nat n = n"
proof (cases "n < 2 ^ 53")
  case True
  then show ?thesis
    by (simp add: f64_nat_def ulp_small)
next
  case False
  assume "n \<le> 2 ^ 53"
  with False have n: "n = 2 ^ 53"
    by simp
  have "f64_nat (2 ^ 53) = 2 ^ 53"
    unfolding f64_nat_def ulp_2_53 by simp
  then show ?thesis
    unfolding n .
qed

lemma f64_small: "\<bar>i\<bar> \<le> 2 ^ 53 \<Longrightarrow> f64 i = i"
proof -
  assume "\<bar>i\<bar> \<le> 2 ^ 53"
  then have "nat \<bar>i\<bar> \<le> 2 ^ 53"
    by (simp add: nat_le_iff)
  then have "f64_nat (nat \<bar>i\<bar>) = nat \<bar>i\<bar>"
    by (rule f64_nat_small)
  then show ?thesis
    by (simp add: f64_def mult_sgn_abs)
qed

text \<open>Past \<open>2 ^ 53\<close> the floats are the even numbers, and a tie goes to the even
  significand.\<close>

lemma f64_rounds_example: "f64 (2 ^ 53 + 1) = 2 ^ 53 \<and> f64 (2 ^ 53 + 3) = 2 ^ 53 + 4"
proof -
  have u: "ulp (2 ^ 53 + 1) = 2" "ulp (2 ^ 53 + 3) = 2"
    by (subst ulp.simps, simp add: ulp_small)+
  have "f64_nat (2 ^ 53 + 1) = 2 ^ 53" and "f64_nat (2 ^ 53 + 3) = 2 ^ 53 + 4"
    unfolding f64_nat_def u by simp_all
  moreover have "nat \<bar>2 ^ 53 + 1\<bar> = 2 ^ 53 + 1" and "nat \<bar>2 ^ 53 + 3\<bar> = 2 ^ 53 + 3"
    by simp_all
  ultimately show ?thesis
    unfolding f64_def by simp
qed

lemma pivot_cell_int: "pivot_cell T d m = Some b \<Longrightarrow> b \<in> \<int>"
  by (auto simp: pivot_cell_def Let_def split: if_splits)

lemma get_col_pivot_int:
  assumes "r0 \<in> set (rows (pivot_table T))" and "get_col (pivot_table T) c r0 = Some b"
  shows "b \<in> \<int>"
proof (cases "c \<in> columns (pivot_table T)")
  case True
  from assms(1) obtain d where "vals r0 = pivot_cell T d"
    by (auto simp: pivot_table_def)
  with True assms(2) have "pivot_cell T d c = Some b"
    by (simp add: get_col_def)
  then show ?thesis
    by (rule pivot_cell_int)
next
  case False
  with assms(2) show ?thesis
    by (simp add: get_col_def)
qed

lemma add_cells_Some:
  "add_cells dt (Some b) (Some m)
     = Some (real_of_int ((if dt then wrap64 else f64) \<lfloor>b + m\<rfloor>))"
  by (simp add: add_cells_def)

lemma sum_cells_exact:
  assumes "b \<in> \<int>" and "m \<in> \<int>" and "\<bar>b + m\<bar> \<le> 2 ^ 53"
  shows "real_of_int ((if dt then wrap64 else f64) \<lfloor>b + m\<rfloor>) = b + m"
proof -
  from assms(1,2) have "b + m \<in> \<int>"
    by (rule Ints_add)
  then obtain i where i: "b + m = real_of_int i"
    by (rule Ints_cases)
  from assms(3) have "real_of_int \<bar>i\<bar> \<le> 2 ^ 53"
    unfolding i by simp
  then have small: "\<bar>i\<bar> \<le> 2 ^ 53"
    by (simp only: of_int_le_numeral_power_cancel_iff)
  then have "- (2 ^ 63) \<le> i" and "i < 2 ^ 63"
    by simp_all
  then have "wrap64 i = i"
    by (rule wrap64_small)
  moreover have "f64 i = i"
    using small by (rule f64_small)
  ultimately show ?thesis
    unfolding i by simp
qed

lemma total_passengers_processed:
  assumes "process_transport_data T = Inr tp" and "r \<in> set (rows tp)"
    and "get_col tp ''bus'' r = Some b" and "get_col tp ''metro'' r = Some m"
  shows "vals r ''total_passengers''
           = Some (real_of_int ((if int_dtype T then wrap64 else f64) \<lfloor>b + m\<rfloor>))"
    and "\<bar>b + m\<bar> \<le> 2 ^ 53 \<Longrightarrow> vals r ''total_passengers'' = Some (b + m)"
proof -
  let ?P = "pivot_table T"
  from assms(1,2) obtain r0 where r0: "r0 \<in> set (rows ?P)"
    and r: "r = r0\<lparr>vals := (vals r0)(''total_passengers'' :=
                    add_cells (int_dtype T) (get_col ?P ''bus'' r0) (get_col ?P ''metro'' r0))\<rparr>"
    by (auto simp: process_transport_data_rows(1))
  have b: "get_col ?P ''bus'' r0 = Some b"
    using assms(3) get_col_processed [OF assms(1) _ r0, of "''bus''"] unfolding r by simp
  have m: "get_col ?P ''metro'' r0 = Some m"
    using assms(4) get_col_processed [OF assms(1) _ r0, of "''metro''"] unfolding r by simp
  from b m show v: "vals r ''total_passengers''
           = Some (real_of_int ((if int_dtype T then wrap64 else f64) \<lfloor>b + m\<rfloor>))"
    unfolding r by (simp add: add_cells_Some)
  have "b \<in> \<int>" and "m \<in> \<int>"
    using get_col_pivot_int [OF r0 b] get_col_pivot_int [OF r0 m] by simp_all
  then show "vals r ''total_passengers'' = Some (b + m)" if "\<bar>b + m\<bar> \<le> 2 ^ 53"
    unfolding v using that by (simp only: sum_cells_exact)
qed

lemma endswith_append: "endswith (c @ sfx) sfx"
  by (simp add: endswith_def)

lemma columns_merged_iff:
  assumes "\<not> endswith c ''_aqi''" and "\<not> endswith c ''_transport''"
  shows "c \<in> columns (drop_suffixed (pd_merge l r))
           \<longleftrightarrow> (c \<in> columns l \<and> c \<notin> columns r) \<or> (c \<in> columns r \<and> c \<notin> columns l)"
proof -
  have a: "c \<noteq> c' @ ''_aqi''" for c'
    using assms(1) endswith_append [of c' "''_aqi''"] by auto
  have b: "c \<noteq> c' @ ''_transport''" for c'
    using assms(2) endswith_append [of c' "''_transport''"] by auto
  show ?thesis
    using assms a b by (auto simp: drop_suffixed_def pd_merge_def image_iff split: if_splits)
qed

lemma rows_pd_merge:
  "r \<in> set (rows (pd_merge l rt)) \<longleftrightarrow>
     (\<exists>a\<in>set (rows l). \<exists>t\<in>set (rows rt). date t = date a \<and> r = merge_row l rt a t)"
  by (auto simp: pd_merge_def)

lemma merge_datasets_Inr:
  assumes "merge_datasets self A T = Inr (M, self')"
  obtains ap tp where "process_aqi_data A = Inr ap" and "process_transport_data T = Inr tp"
    and "M = sort_values_date (drop_suffixed (pd_merge ap tp))"
    and "self' = self\<lparr>merged_data := Some M\<rparr>"
  using assms
  by (auto simp: merge_datasets_def Let_def split: sum.splits)

lemma rows_merged:
  "set (rows (sort_values_date (drop_suffixed (pd_merge l r)))) = set (rows (pd_merge l r))"
  by (simp add: sort_values_date_def drop_suffixed_def)

lemma columns_sorted: "columns (sort_values_date df) = columns df"
  by (simp add: sort_values_date_def)

lemma merged_transport_cell:
  assumes "process_aqi_data A = Inr ap" and "process_transport_data T = Inr tp"
    and "columns A \<inter> {''bus'', ''metro'', ''total_passengers''} = {}"
    and "c \<in> {''bus'', ''metro'', ''total_passengers''}"
  shows "get_col (sort_values_date (drop_suffixed (pd_merge ap tp))) c (merge_row ap tp a t)
           = get_col tp c t"
    and "c \<in> columns tp \<Longrightarrow> vals (merge_row ap tp a t) c = vals t c"
proof -
  have cols: "columns ap = insert ''AQI_Category'' (columns A)"
    by (rule process_aqi_data_rows(1) [OF assms(1)])
  have notl: "c \<notin> columns ap"
    using assms(3,4) cols by auto
  have iff: "c \<in> columns (sort_values_date (drop_suffixed (pd_merge ap tp))) \<longleftrightarrow> c \<in> columns tp"
    using assms(4) notl unfolding columns_sorted
    by (subst columns_merged_iff) (auto simp: endswith_def)
  show val: "vals (merge_row ap tp a t) c = vals t c" if "c \<in> columns tp"
    using that notl by (simp add: merge_row_def)
  show "get_col (sort_values_date (drop_suffixed (pd_merge ap tp))) c (merge_row ap tp a t)
           = get_col tp c t"
    using iff val by (auto simp: get_col_def)
qed

lemma total_passengers_merged:
  assumes "merge_datasets self A T = Inr (M, self')"
    and "columns A \<inter> {''bus'', ''metro'', ''total_passengers''} = {}"
    and "r \<in> set (rows M)"
    and "get_col M ''bus'' r = Some b" and "get_col M ''metro'' r = Some m"
  shows "vals r ''total_passengers''
           = Some (real_of_int ((if int_dtype T then wrap64 else f64) \<lfloor>b + m\<rfloor>))"
    and "\<bar>b + m\<bar> \<le> 2 ^ 53 \<Longrightarrow> vals r ''total_passengers'' = Some (b + m)"
proof -
  from assms(1) obtain ap tp where ap: "process_aqi_data A = Inr ap"
    and tp: "process_transport_data T = Inr tp"
    and M: "M = sort_values_date (drop_suffixed (pd_merge ap tp))"
    by (rule merge_datasets_Inr)
  from assms(3) obtain a t where t: "t \<in> set (rows tp)" and r: "r = merge_row ap tp a t"
    unfolding M rows_merged rows_pd_merge by blast
  have b: "get_col tp ''bus'' t = Some b"
    using assms(4) merged_transport_cell(1) [OF ap tp assms(2), of "''bus''" a t]
    unfolding M r by simp
  have m: "get_col tp ''metro'' t = Some m"
    using assms(5) merged_transport_cell(1) [OF ap tp assms(2), of "''metro''" a t]
    unfolding M r by simp
  have "''total_passengers'' \<in> columns tp"
    by (simp add: process_transport_data_rows(2) [OF tp])
  then have eq: "vals r ''total_passengers'' = vals t ''total_passengers''"
    unfolding r by (intro merged_transport_cell(2) [OF ap tp assms(2)]) simp_all
  show "vals r ''total_passengers''
           = Some (real_of_int ((if int_dtype T then wrap64 else f64) \<lfloor>b + m\<rfloor>))"
    unfolding eq by (rule total_passengers_processed(1) [OF tp t b m])
  show "vals r ''total_passengers'' = Some (b + m)" if "\<bar>b + m\<bar> \<le> 2 ^ 53"
    unfolding eq using that by (rule total_passengers_processed(2) [OF tp t b m])
qed

text \<open>
  Claim C2, as the code has it. The claim sums all the mode columns; the code adds
  \<^verbatim>\<open>transport_pivot.get('bus', 0)\<close> and \<^verbatim>\<open>transport_pivot.get('metro', 0)\<close>, so the
  counterexample, a day with 7 tram and 3 bus passengers, has the total 3. What holds,
  in every processed transport table and in every merged table made from it (the AQI
  table having no column of the three transport labels): on a row where the bus and
  the metro column, as far as the table has them, hold the values \<open>b\<close> and \<open>m\<close> (a
  column that the table does not have counting 0), \<^verbatim>\<open>total_passengers\<close> is the sum
  of the two in the arithmetic of the columns: the int64 sum, which wraps around at
  \<open>2 ^ 63\<close>, when every date has an event of every mode, and the float64 sum, which
  is rounded to 53 significant bits, otherwise. It is the exact sum \<open>b + m\<close> whenever
  that is at most \<open>2 ^ 53\<close> in absolute value.
\<close>

theorem total_passengers_bus_metro:
  "(\<forall>tp r b m.
      process_transport_data transport_df = Inr tp \<and> r \<in> set (rows tp)
      \<and> get_col tp ''bus'' r = Some b \<and> get_col tp ''metro'' r = Some m
      \<longrightarrow> vals r ''total_passengers''
            = Some (real_of_int ((if int_dtype transport_df then wrap64 else f64) \<lfloor>b + m\<rfloor>))
          \<and> (\<bar>b + m\<bar> \<le> 2 ^ 53 \<longrightarrow> vals r ''total_passengers'' = Some (b + m)))
   \<and> (\<forall>self aqi_df merged self' r b m.
      merge_datasets self aqi_df transport_df = Inr (merged, self')
      \<and> columns aqi_df \<inter> {''bus'', ''metro'', ''total_passengers''} = {}
      \<and> r \<in> set (rows merged)
      \<and> get_col merged ''bus'' r = Some b \<and> get_col merged ''metro'' r = Some m
      \<longrightarrow> vals r ''total_passengers''
            = Some (real_of_int ((if int_dtype transport_df then wrap64 else f64) \<lfloor>b + m\<rfloor>))
          \<and> (\<bar>b + m\<bar> \<le> 2 ^ 53 \<longrightarrow> vals r ''total_passengers'' = Some (b + m)))"
proof (intro conjI allI impI)
  fix tp r b m
  assume a: "process_transport_data transport_df = Inr tp \<and> r \<in> set (rows tp)
      \<and> get_col tp ''bus'' r = Some b \<and> get_col tp ''metro'' r = Some m"
  from a show "vals r ''total_passengers''
      = Some (real_of_int ((if int_dtype transport_df then wrap64 else f64) \<lfloor>b + m\<rfloor>))"
    by (elim conjE) (rule total_passengers_processed(1))
  assume "\<bar>b + m\<bar> \<le> 2 ^ 53"
  with a show "vals r ''total_passengers'' = Some (b + m)"
    by (elim conjE) (rule total_passengers_processed(2))
next
  fix self aqi_df merged self' r b m
  assume a: "merge_datasets self aqi_df transport_df = Inr (merged, self')
      \<and> columns aqi_df \<inter> {''bus'', ''metro'', ''total_passengers''} = {}
      \<and> r \<in> set (rows merged)
      \<and> get_col merged ''bus'' r = Some b \<and> get_col merged ''metro'' r = Some m"
  from a show "vals r ''total_passengers''
      = Some (real_of_int ((if int_dtype transport_df then wrap64 else f64) \<lfloor>b + m\<rfloor>))"
    by (elim conjE) (rule total_passengers_merged(1))
  assume "\<bar>b + m\<bar> \<le> 2 ^ 53"
  with a show "vals r ''total_passengers'' = Some (b + m)"
    by (elim conjE) (rule total_passengers_merged(2))
qed

lemma dates_pd_merge:
  "map date (rows (pd_merge l r)) =
     concat (map (\<lambda>a. map (\<lambda>t. date a) (filter (\<lambda>t. date t = date a) (rows r))) (rows l))"
  by (simp add: pd_merge_def merge_row_def map_concat comp_def)

lemma join_dates_set:
  "set (concat (map (\<lambda>a. map (\<lambda>t. date a) (filter (\<lambda>t. date t = date a) ts)) as))
     = date ` set as \<inter> date ` set ts"
  by force

lemma filter_key_le1:
  "distinct (map f ts) \<Longrightarrow> length (filter (\<lambda>t. f t = d) ts) \<le> Suc 0"
proof (induction ts)
  case Nil
  then show ?case by simp
next
  case (Cons a ts)
  show ?case
  proof (cases "f a = d")
    case True
    with Cons.prems have "d \<notin> f ` set ts"
      by simp
    then have "filter (\<lambda>t. f t = d) ts = []"
      unfolding filter_empty_conv by blast
    with True show ?thesis by simp
  next
    case False
    with Cons show ?thesis by simp
  qed
qed

lemma distinct_map_const:
  "length xs \<le> Suc 0 \<Longrightarrow> distinct (map (\<lambda>t. d) xs)"
  by (cases xs) auto

lemma join_dates_distinct:
  assumes "distinct (map date ts)"
  shows "distinct (map date as) \<Longrightarrow>
    distinct (concat (map (\<lambda>a. map (\<lambda>t. date a) (filter (\<lambda>t. date t = date a) ts)) as))"
proof (induction as)
  case Nil
  then show ?case by simp
next
  case (Cons a as)
  have "distinct (map (\<lambda>t. date a) (filter (\<lambda>t. date t = date a) ts))"
    by (intro distinct_map_const filter_key_le1 assms)
  moreover have "date a \<notin> date ` set as"
    using Cons.prems by auto
  ultimately show ?case
    using Cons by (auto simp: distinct_map_const)
qed

lemma map_sort_key: "map f (sort_key f xs) = sort (map f xs)"
  by (rule properties_for_sort [symmetric]) simp_all

lemma sort_distinct_eq: "distinct xs \<Longrightarrow> sort xs = sorted_list_of_set (set xs)"
  by (simp add: sorted_list_of_set_sort_remdups distinct_remdups_id)

lemma dates_merged:
  assumes "distinct (map date (rows l))" and "distinct (map date (rows r))"
  shows "map date (rows (sort_values_date (drop_suffixed (pd_merge l r))))
           = sorted_list_of_set (date ` set (rows l) \<inter> date ` set (rows r))"
proof -
  let ?J = "map date (rows (pd_merge l r))"
  have "map date (rows (sort_values_date (drop_suffixed (pd_merge l r)))) = sort ?J"
    by (simp add: sort_values_date_def drop_suffixed_def map_sort_key)
  moreover have "distinct ?J"
    unfolding dates_pd_merge by (rule join_dates_distinct [OF assms(2,1)])
  moreover have "set ?J = date ` set (rows l) \<inter> date ` set (rows r)"
    unfolding dates_pd_merge by (rule join_dates_set)
  ultimately show ?thesis
    by (simp add: sort_distinct_eq)
qed

lemma merge_datasets_returns:
  assumes "''AQI'' \<in> columns A" and "set numeric_cols \<inter> columns A \<inter> object_cols A = {}"
    and "\<not> list_ex (\<lambda>e. mode e \<in> set index_labels) T"
  shows "\<exists>M self'. merge_datasets self A T = Inr (M, self')"
proof -
  from process_aqi_data_returns [OF assms(1,2)] obtain ap where "process_aqi_data A = Inr ap"
    by blast
  with assms(3) show ?thesis
    by (simp add: merge_datasets_def process_transport_data_cases Let_def)
qed

text \<open>
  Claim C3. For an AQI table with at most one row per date and any transport events,
  the dates of the table that \<^verbatim>\<open>merge_datasets\<close> returns are exactly the dates that
  occur in both inputs, each once, in ascending order; and \<^verbatim>\<open>merge_datasets\<close> does
  return a table when the AQI table has its \<^verbatim>\<open>AQI\<close> column, none of its measurement
  columns has the object dtype and no mode is one of the index labels.
\<close>

theorem merge_dates_intersection:
  assumes "distinct (map date (rows aqi_df))"
  shows "(\<forall>merged self'.
            merge_datasets self aqi_df transport_df = Inr (merged, self') \<longrightarrow>
            map date (rows merged)
              = sorted_list_of_set (date ` set (rows aqi_df) \<inter> ev_date ` set transport_df))
       \<and> (''AQI'' \<in> columns aqi_df
            \<and> set numeric_cols \<inter> columns aqi_df \<inter> object_cols aqi_df = {}
            \<and> \<not> list_ex (\<lambda>e. mode e \<in> set index_labels) transport_df \<longrightarrow>
          (\<exists>merged self'. merge_datasets self aqi_df transport_df = Inr (merged, self')))"
proof (intro conjI allI impI)
  fix merged self'
  assume m: "merge_datasets self aqi_df transport_df = Inr (merged, self')"
  then obtain ap tp where ap: "process_aqi_data aqi_df = Inr ap"
    and tp: "process_transport_data transport_df = Inr tp"
    and M: "merged = sort_values_date (drop_suffixed (pd_merge ap tp))"
    by (rule merge_datasets_Inr)
  have da: "map date (rows ap) = map date (rows aqi_df)"
    by (rule process_aqi_data_dates [OF ap])
  have dt: "map date (rows tp) = sort (remdups (map ev_date transport_df))"
    by (rule process_transport_data_dates [OF tp])
  have "distinct (map date (rows ap))"
    using assms da by simp
  moreover have "distinct (map date (rows tp))"
    using dt by simp
  ultimately have "map date (rows merged)
      = sorted_list_of_set (date ` set (rows ap) \<inter> date ` set (rows tp))"
    unfolding M by (rule dates_merged)
  moreover have "date ` set (rows ap) = date ` set (rows aqi_df)"
    using arg_cong [OF da, of set] by simp
  moreover have "date ` set (rows tp) = ev_date ` set transport_df"
    using arg_cong [OF dt, of set] by simp
  ultimately show "map date (rows merged)
      = sorted_list_of_set (date ` set (rows aqi_df) \<inter> ev_date ` set transport_df)"
    by simp
next
  assume "''AQI'' \<in> columns aqi_df
            \<and> set numeric_cols \<inter> columns aqi_df \<inter> object_cols aqi_df = {}
            \<and> \<not> list_ex (\<lambda>e. mode e \<in> set index_labels) transport_df"
  then show "\<exists>merged self'. merge_datasets self aqi_df transport_df = Inr (merged, self')"
    by (elim conjE) (rule merge_datasets_returns)
qed

lemma column_processed_transport:
  assumes "process_transport_data T = Inr tp"
  shows "column tp c =
     (if c = ''total_passengers''
      then map (\<lambda>r. add_cells (int_dtype T) (get_col (pivot_table T) ''bus'' r)
                               (get_col (pivot_table T) ''metro'' r)) (rows (pivot_table T))
      else column (pivot_table T) c)"
  by (simp add: process_transport_data_rows(1) [OF assms] column_def comp_def)

lemma process_transport_column_eval:
  assumes "process_transport_data T = Inr tp"
    and "(if c = ''total_passengers''
      then map (\<lambda>r. add_cells (int_dtype T) (get_col (pivot_table T) ''bus'' r)
                               (get_col (pivot_table T) ''metro'' r)) (rows (pivot_table T))
      else column (pivot_table T) c) = ys"
  shows "column tp c = ys"
  using assms by (simp add: column_processed_transport)

lemmas transport_eval =
  pivot_table_def pivot_cell_def get_col_def add_cells_def mk_event_def column_def
  int_dtype_def wrap64_def f64_small

text \<open>The sum wraps around: on a day with \<open>2 ^ 62\<close> bus and \<open>2 ^ 62\<close> metro passengers,
  the only day and the only two modes of the table, the columns are int64 and the total
  is \<open>- (2 ^ 63)\<close>.\<close>

lemma total_passengers_wraps_example:
  "map_sum id (column_of ''bus'') (process_transport_data events_overflow) = Inr [Some (2 ^ 62)]
   \<and> map_sum id (column_of ''metro'') (process_transport_data events_overflow)
       = Inr [Some (2 ^ 62)]
   \<and> map_sum id (column_of ''total_passengers'') (process_transport_data events_overflow)
       = Inr [Some (- (2 ^ 63))]"
proof -
  obtain tp where tp: "process_transport_data events_overflow = Inr tp"
    by (simp add: process_transport_data_cases events_overflow_def mk_event_def index_labels_def)
  have "column tp ''total_passengers'' = [Some (- (2 ^ 63))]"
    by (rule process_transport_column_eval [OF tp]) (simp add: transport_eval events_overflow_def)
  moreover have "column tp ''bus'' = [Some (2 ^ 62)]"
    by (rule process_transport_column_eval [OF tp]) (simp add: transport_eval events_overflow_def)
  moreover have "column tp ''metro'' = [Some (2 ^ 62)]"
    by (rule process_transport_column_eval [OF tp]) (simp add: transport_eval events_overflow_def)
  ultimately show ?thesis
    by (simp add: tp column_of_def)
qed

theorem total_passengers_counterexample:
  "map_sum id (column_of ''total_passengers'') (process_transport_data tram_events) = Inr [Some 3]
   \<and> map_sum id (column_of ''bus'') (process_transport_data tram_events) = Inr [Some 3]
   \<and> map_sum id (column_of ''tram'') (process_transport_data tram_events) = Inr [Some 7]"
proof -
  obtain tp where tp: "process_transport_data tram_events = Inr tp"
    by (simp add: process_transport_data_cases tram_events_def mk_event_def index_labels_def)
  have "column tp ''total_passengers'' = [Some 3]"
    by (rule process_transport_column_eval [OF tp]) (simp add: transport_eval tram_events_def)
  moreover have "column tp ''bus'' = [Some 3]"
    by (rule process_transport_column_eval [OF tp]) (simp add: transport_eval tram_events_def)
  moreover have "column tp ''tram'' = [Some 7]"
    by (rule process_transport_column_eval [OF tp]) (simp add: transport_eval tram_events_def)
  ultimately show ?thesis
    by (simp add: tp column_of_def)
qed

text \<open>On a day without an event of one of the two modes the total is missing: the
  second day of the two-day scenario has 50 bus passengers and no metro event.\<close>

lemma total_passengers_missing_example:
  "map_sum id (column_of ''total_passengers'') (process_transport_data events_two_days)
     = Inr [Some 300, None]"
proof -
  obtain tp where tp: "process_transport_data events_two_days = Inr tp"
    by (simp add: process_transport_data_cases events_two_days_def mk_event_def
        index_labels_def)
  have "column tp ''total_passengers'' = [Some 300, None]"
    by (rule process_transport_column_eval [OF tp])
      (simp add: transport_eval events_two_days_def)
  then show ?thesis
    by (simp add: tp column_of_def)
qed

lemma column_nth: "i < length (rows df) \<Longrightarrow> column df c ! i = vals (rows df ! i) c"
  by (simp add: column_def)

lemma frame_dates_nth: "i < length (rows df) \<Longrightarrow> map date (rows df) ! i = date (rows df ! i)"
  by simp

theorem total_passengers_bus_metro_witness:
  "(\<exists>tp r. process_transport_data events_two_days = Inr tp \<and> r \<in> set (rows tp)
      \<and> get_col tp ''bus'' r = Some 100 \<and> get_col tp ''metro'' r = Some 200
      \<and> vals r ''total_passengers'' = Some 300)
   \<and> (\<exists>merged self' r.
        merge_datasets init aqi_two_days events_two_days = Inr (merged, self')
      \<and> columns aqi_two_days \<inter> {''bus'', ''metro'', ''total_passengers''} = {}
      \<and> r \<in> set (rows merged)
      \<and> get_col merged ''bus'' r = Some 100 \<and> get_col merged ''metro'' r = Some 200
      \<and> vals r ''total_passengers'' = Some 300)"
proof -
  let ?T = events_two_days and ?A = aqi_two_days
  note th = total_passengers_bus_metro [of ?T]
  have ok: "\<not> list_ex (\<lambda>e. mode e \<in> set index_labels) ?T"
    by (simp add: events_two_days_def mk_event_def index_labels_def)
  have aqi: "''AQI'' \<in> columns ?A"
    and num: "set numeric_cols \<inter> columns ?A \<inter> object_cols ?A = {}"
    and disj: "columns ?A \<inter> {''bus'', ''metro'', ''total_passengers''} = {}"
    by (simp_all add: aqi_two_days_def)
  have small: "\<bar>100 + 200 :: real\<bar> \<le> 2 ^ 53"
    by simp
  from merge_datasets_returns [OF aqi num ok, of init]
  obtain M s' where M: "merge_datasets init ?A ?T = Inr (M, s')"
    by blast
  then obtain ap tp where ap: "process_aqi_data ?A = Inr ap"
    and tp: "process_transport_data ?T = Inr tp"
    and Meq: "M = sort_values_date (drop_suffixed (pd_merge ap tp))"
    by (rule merge_datasets_Inr)
  have bus: "column tp ''bus'' = [Some 100, Some 50]"
    by (rule process_transport_column_eval [OF tp]) (simp add: transport_eval events_two_days_def)
  have metro: "column tp ''metro'' = [Some 200, None]"
    by (rule process_transport_column_eval [OF tp]) (simp add: transport_eval events_two_days_def)
  have dt: "map date (rows tp) = [1, 2]"
    by (simp add: process_transport_data_dates [OF tp] events_two_days_def mk_event_def)
  have da: "map date (rows ap) = [1, 2]"
    by (simp add: process_aqi_data_dates [OF ap] aqi_two_days_def mk_row_def)
  have lt: "0 < length (rows tp)" and la: "0 < length (rows ap)"
    using arg_cong [OF dt, of length] arg_cong [OF da, of length] by simp_all
  define t where "t = rows tp ! 0"
  define a where "a = rows ap ! 0"
  have t_in: "t \<in> set (rows tp)" and a_in: "a \<in> set (rows ap)"
    using lt la by (simp_all add: t_def a_def)
  have cols: "''bus'' \<in> columns tp" "''metro'' \<in> columns tp"
    by (simp_all add: process_transport_data_rows(2) [OF tp] events_two_days_def mk_event_def)
  have "vals t ''bus'' = Some 100"
    using column_nth [OF lt, of "''bus''"] bus by (simp add: t_def)
  then have gb: "get_col tp ''bus'' t = Some 100"
    using cols by (simp add: get_col_def)
  have "vals t ''metro'' = Some 200"
    using column_nth [OF lt, of "''metro''"] metro by (simp add: t_def)
  then have gm: "get_col tp ''metro'' t = Some 200"
    using cols by (simp add: get_col_def)
  from th tp t_in gb gm small have "vals t ''total_passengers'' = Some (100 + 200)"
    by blast
  then have first: "vals t ''total_passengers'' = Some 300"
    by simp
  have "date t = date a"
    using frame_dates_nth [OF lt] frame_dates_nth [OF la] dt da by (simp add: t_def a_def)
  then have r_in: "merge_row ap tp a t \<in> set (rows M)"
    unfolding Meq rows_merged rows_pd_merge using a_in t_in by blast
  have mb: "get_col M ''bus'' (merge_row ap tp a t) = Some 100"
    unfolding Meq using merged_transport_cell(1) [OF ap tp disj, of "''bus''" a t] gb by simp
  have mm: "get_col M ''metro'' (merge_row ap tp a t) = Some 200"
    unfolding Meq using merged_transport_cell(1) [OF ap tp disj, of "''metro''" a t] gm by simp
  from th M disj r_in mb mm small
  have "vals (merge_row ap tp a t) ''total_passengers'' = Some (100 + 200)"
    by blast
  then have second: "vals (merge_row ap tp a t) ''total_passengers'' = Some 300"
    by simp
  show ?thesis
    using tp t_in gb gm first M disj r_in mb mm second by blast
qed

theorem merge_dates_intersection_witness:
  "distinct (map date (rows aqi_three_days))
   \<and> ''AQI'' \<in> columns aqi_three_days
   \<and> set numeric_cols \<inter> columns aqi_three_days \<inter> object_cols aqi_three_days = {}
   \<and> \<not> list_ex (\<lambda>e. mode e \<in> set index_labels) events_late
   \<and> (\<exists>merged self'. merge_datasets init aqi_three_days events_late = Inr (merged, self')
         \<and> map date (rows merged) = [2, 3])"
proof -
  have d: "distinct (map date (rows aqi_three_days))"
    and a: "''AQI'' \<in> columns aqi_three_days"
    and n: "set numeric_cols \<inter> columns aqi_three_days \<inter> object_cols aqi_three_days = {}"
    and m: "\<not> list_ex (\<lambda>e. mode e \<in> set index_labels) events_late"
    by (simp_all add: aqi_three_days_def mk_row_def events_late_def mk_event_def
        index_labels_def)
  note th = merge_dates_intersection [OF d, of init events_late]
  from th a n m obtain merged self'
    where M: "merge_datasets init aqi_three_days events_late = Inr (merged, self')"
    by blast
  with th have "map date (rows merged)
      = sorted_list_of_set (date ` set (rows aqi_three_days) \<inter> ev_date ` set events_late)"
    by blast
  also have "date ` set (rows aqi_three_days) \<inter> ev_date ` set events_late = set [2, 3]"
    by (auto simp: aqi_three_days_def mk_row_def events_late_def mk_event_def)
  also have "sorted_list_of_set (set [2, 3 :: int]) = [2, 3]"
    by (simp add: sorted_list_of_set_sort_remdups)
  finally have "map date (rows merged) = [2, 3]" .
  with M have "\<exists>merged self'. merge_datasets init aqi_three_days events_late = Inr (merged, self')
         \<and> map date (rows merged) = [2, 3]"
    by (intro exI conjI)
  with d a n m show ?thesis
    by (intro conjI)
qed

section \<open>The claims about the statistics\<close>

lemmas frame_eval =
  merge_datasets_def process_aqi_data_def process_transport_data_def clean_col_def
  interpolate_and_fill_def as_frame_def int_dtype_def wrap64_def f64_small assign_def assign_category_def column_def pivot_table_def pivot_cell_def get_col_def
  add_cells_def pd_merge_def merge_row_def drop_suffixed_def sort_values_date_def
  endswith_def strip_suffix_def median_def fillna_def pd_cut_def bins_def labels_def
  searchsorted_left_def numeric_cols_def aqi_cols_def transport_cols_def index_labels_def
  mk_row_def mk_event_def init_def current_table_def pearsonr_def Let_def

lemma pearsonr_error: "pearsonr x y = Inl e \<Longrightarrow> e = ValueError"
  by (auto simp: pearsonr_def split: if_splits)

lemma pearsonr_short:
  "length x < 2 \<or> length y < 2 \<Longrightarrow> pearsonr x y = Inl ValueError"
  by (auto simp: pearsonr_def)

lemma corr_loop_error: "corr_loop df ps acc = Inl e \<Longrightarrow> e = ValueError"
proof (induction ps arbitrary: acc)
  case Nil
  then show ?case by simp
next
  case (Cons p ps)
  obtain a t where p: "p = (a, t)" by (cases p)
  from Cons show ?case
    unfolding p by (auto simp: pearsonr_error split: if_splits sum.splits prod.splits)
qed

lemma corr_loop_fails:
  assumes "a \<in> columns df" and "t \<in> columns df"
    and "pearsonr (dropna (column df a)) (dropna (column df t)) = Inl e"
  shows "(a, t) \<in> set ps \<Longrightarrow> \<exists>e'. corr_loop df ps acc = Inl e'"
proof (induction ps arbitrary: acc)
  case Nil
  then show ?case by simp
next
  case (Cons p ps)
  obtain a' t' where p: "p = (a', t')" by (cases p)
  show ?case
  proof (cases "(a', t') = (a, t)")
    case True
    then have eq: "a' = a" "t' = t" by simp_all
    show ?thesis
      unfolding p eq using assms by simp
  next
    case False
    with Cons.prems p have "(a, t) \<in> set ps" by auto
    then have "\<exists>e'. corr_loop df ps acc' = Inl e'" for acc'
      by (rule Cons.IH)
    then show ?thesis
      unfolding p by (auto split: sum.splits prod.splits)
  qed
qed

text \<open>
  Claim C1 does not hold of the code: each of the two columns drops its own missing
  values (lines 140 and 141), so the two sequences given to \<^verbatim>\<open>pearsonr\<close> are not the
  rows in which both columns have a value. Three days with a bus count on the first and
  the third only: the pair AQI and bus has two complete rows, and the code gives
  \<^verbatim>\<open>pearsonr\<close> three AQI values and two bus values, which raises a \<^verbatim>\<open>ValueError\<close>.
\<close>

theorem correlations_fail_on_gap:
  "load_data aqi_three_days events_gap = Inl ValueError
   \<and> map_sum id (pairs_of ''AQI'' ''bus'') (merged_table aqi_three_days events_gap)
       = Inr [(80, 100), (100, 70)]"
  by (simp add: load_data_def merged_table_def pairs_of_def pairwise_complete_def
      calculate_correlations_def frame_eval aqi_three_days_def events_gap_def)

text \<open>Where the two columns have as many values each, the code pairs values of
  different rows: here the AQI values of the days 1, 3, 4 with the bus values of the
  days 2, 3, 4, where the rows with both values are the days 3 and 4.\<close>

lemma correlations_misaligned_example:
  "calculate_correlations init (Some misaligned)
     = Inr [(''AQI_vs_bus'',
             \<lparr>correlation = PearsonR [1, 3, 4] [5, 6, 7],
              p_value = PearsonP [1, 3, 4] [5, 6, 7],
              significant = Below (PearsonP [1, 3, 4] [5, 6, 7]) (5 / 100)\<rparr>)]
   \<and> pairwise_complete misaligned ''AQI'' ''bus'' = [(3, 6), (4, 7)]"
  by (simp add: calculate_correlations_def pairwise_complete_def misaligned_def frame_eval)

text \<open>
  Claim C7, as the code has it. The code has no error of its own for too few
  observations and skips no pair: the counterexample is the two-day scenario of the
  specification, where the pair AQI and metro has one paired observation and the whole
  computation ends with the \<^verbatim>\<open>ValueError\<close> of \<^verbatim>\<open>pearsonr\<close>, the pair AQI and bus with its
  two observations included. What holds: when one column of a pair that is visited
  has fewer than two values, \<^verbatim>\<open>calculate_correlations\<close> raises a \<^verbatim>\<open>ValueError\<close> and
  returns no entry at all.
\<close>

theorem correlations_short_column_value_error:
  assumes "current_table self merged_df = Some df"
    and "a \<in> set aqi_cols" and "a \<in> columns df"
    and "t \<in> set transport_cols" and "t \<in> columns df"
    and "length (dropna (column df a)) < 2 \<or> length (dropna (column df t)) < 2"
  shows "calculate_correlations self merged_df = Inl ValueError"
proof -
  let ?ps = "List.product (filter (\<lambda>c. c \<in> columns df) aqi_cols)
                          (filter (\<lambda>c. c \<in> columns df) transport_cols)"
  have "(a, t) \<in> set ?ps"
    using assms(2-5) by simp
  moreover have "pearsonr (dropna (column df a)) (dropna (column df t)) = Inl ValueError"
    using assms(6) by (rule pearsonr_short)
  ultimately obtain e where "corr_loop df ?ps [] = Inl e"
    using corr_loop_fails [OF assms(3,5)] by blast
  moreover from this have "e = ValueError"
    by (rule corr_loop_error)
  ultimately show ?thesis
    using assms(1) by (simp add: calculate_correlations_def)
qed

theorem correlations_short_column_value_error_witness:
  "current_table init (Some merged_two_days) = Some merged_two_days
   \<and> ''AQI'' \<in> set aqi_cols \<and> ''AQI'' \<in> columns merged_two_days
   \<and> ''metro'' \<in> set transport_cols \<and> ''metro'' \<in> columns merged_two_days
   \<and> length (dropna (column merged_two_days ''metro'')) < 2
   \<and> calculate_correlations init (Some merged_two_days) = Inl ValueError"
  using correlations_short_column_value_error
    [of init "Some merged_two_days" merged_two_days "''AQI''" "''metro''"]
  by (simp add: current_table_def aqi_cols_def transport_cols_def merged_two_days_def
      column_def mk_row_def)

theorem insufficient_data_counterexample:
  "load_data aqi_two_days events_two_days = Inl ValueError
   \<and> map_sum id (pairs_of ''AQI'' ''metro'') (merged_table aqi_two_days events_two_days)
       = Inr [(80, 200)]
   \<and> map_sum id (pairs_of ''AQI'' ''bus'') (merged_table aqi_two_days events_two_days)
       = Inr [(80, 100), (120, 50)]"
  by (simp add: load_data_def merged_table_def pairs_of_def pairwise_complete_def
      calculate_correlations_def frame_eval aqi_two_days_def events_two_days_def)

text \<open>
  Claim C9. Given a table as argument, \<^verbatim>\<open>calculate_correlations\<close> and
  \<^verbatim>\<open>get_summary_statistics\<close> give the same result whatever the processor caches.
\<close>

theorem statistics_ignore_cache:
  "calculate_correlations self1 (Some merged_df) = calculate_correlations self2 (Some merged_df)
   \<and> get_summary_statistics self1 (Some merged_df)
       = get_summary_statistics self2 (Some merged_df)"
  by (simp add: calculate_correlations_def get_summary_statistics_def current_table_def)

text \<open>
  Claim C10. Without an argument and with an empty cache, \<^verbatim>\<open>calculate_correlations\<close>
  and \<^verbatim>\<open>get_summary_statistics\<close> raise a \<^verbatim>\<open>ValueError\<close>.
\<close>

theorem statistics_without_table_value_error:
  assumes "merged_data self = None"
  shows "calculate_correlations self None = Inl ValueError
       \<and> get_summary_statistics self None = Inl ValueError"
  using assms
  by (simp add: calculate_correlations_def get_summary_statistics_def current_table_def)

theorem statistics_without_table_value_error_witness:
  "merged_data init = None
   \<and> calculate_correlations init None = Inl ValueError
   \<and> get_summary_statistics init None = Inl ValueError"
  using statistics_without_table_value_error [of init]
  by (simp add: init_def)

section \<open>The claim about the lag and rolling features\<close>

lemma shift_example: "shift 1 [Some 10, Some 20, Some 30] = [None, Some 10, Some 20]"
  by (simp add: shift_def)

lemma rolling_mean_example:
  "rolling_mean 7 [Some 10, Some 20, Some 30] = [Some 10, Some 15, Some 20]"
  by (simp add: rolling_mean_def col_mean_def upt_rec)

lemma length_shift: "length (shift k xs) = length xs"
  by (auto simp: shift_def)

lemma length_rolling_mean: "length (rolling_mean w xs) = length xs"
  by (simp add: rolling_mean_def)

lemma add_lags_frame:
  "map date (rows (add_lags lags df)) = map date (rows df)
   \<and> (c \<notin> lag_labels lags \<longrightarrow> column (add_lags lags df) c = column df c)"
proof (induction lags arbitrary: df)
  case Nil
  then show ?case by simp
next
  case (Cons lag lags)
  let ?df1 = "assign df (''AQI_lag_'' @ str_int lag) (shift lag (column df ''AQI''))"
  let ?df2 = "assign ?df1 (''total_passengers_lag_'' @ str_int lag)
                (shift lag (column ?df1 ''total_passengers''))"
  have l1: "length (shift lag (column df ''AQI'')) = length (rows df)"
    by (simp add: length_shift length_column)
  have r1: "length (rows ?df1) = length (rows df)"
    by (rule length_rows_assign [OF l1])
  have l2: "length (shift lag (column ?df1 ''total_passengers'')) = length (rows ?df1)"
    by (simp add: length_shift length_column)
  have d: "map date (rows ?df2) = map date (rows df)"
    by (simp only: dates_assign [OF l2] dates_assign [OF l1])
  have c: "column ?df2 c = column df c" if "c \<notin> lag_labels (lag # lags)"
  proof -
    from that have n1: "c \<noteq> ''AQI_lag_'' @ str_int lag"
      and n2: "c \<noteq> ''total_passengers_lag_'' @ str_int lag"
      by (auto simp: lag_labels_def)
    have "column ?df2 c = column ?df1 c"
      by (rule column_assign_other [OF l2 n2])
    also have "\<dots> = column df c"
      by (rule column_assign_other [OF l1 n1])
    finally show ?thesis .
  qed
  have sub: "c \<notin> lag_labels lags" if "c \<notin> lag_labels (lag # lags)"
    using that unfolding lag_labels_def by auto
  have step: "add_lags (lag # lags) df = add_lags lags ?df2"
    by (simp only: add_lags.simps Let_def)
  show ?case
  proof (intro conjI impI)
    show "map date (rows (add_lags (lag # lags) df)) = map date (rows df)"
      unfolding step using Cons.IH [of ?df2] d by simp
    assume n: "c \<notin> lag_labels (lag # lags)"
    have "column (add_lags lags ?df2) c = column ?df2 c"
      using Cons.IH [of ?df2] sub [OF n] by blast
    then show "column (add_lags (lag # lags) df) c = column df c"
      unfolding step using c [OF n] by simp
  qed
qed

lemma add_rolling_frame:
  "map date (rows (add_rolling ws df)) = map date (rows df)
   \<and> (c \<notin> rolling_labels ws \<longrightarrow> column (add_rolling ws df) c = column df c)"
proof (induction ws arbitrary: df)
  case Nil
  then show ?case by simp
next
  case (Cons w ws)
  let ?df1 = "assign df (''AQI_rolling_'' @ str_nat w @ ''d'')
                (rolling_mean w (column df ''AQI''))"
  let ?df2 = "assign ?df1 (''total_passengers_rolling_'' @ str_nat w @ ''d'')
                (rolling_mean w (column ?df1 ''total_passengers''))"
  have l1: "length (rolling_mean w (column df ''AQI'')) = length (rows df)"
    by (simp add: length_rolling_mean length_column)
  have r1: "length (rows ?df1) = length (rows df)"
    by (rule length_rows_assign [OF l1])
  have l2: "length (rolling_mean w (column ?df1 ''total_passengers'')) = length (rows ?df1)"
    by (simp add: length_rolling_mean length_column)
  have d: "map date (rows ?df2) = map date (rows df)"
    by (simp only: dates_assign [OF l2] dates_assign [OF l1])
  have c: "column ?df2 c = column df c" if "c \<notin> rolling_labels (w # ws)"
  proof -
    from that have n1: "c \<noteq> ''AQI_rolling_'' @ str_nat w @ ''d''"
      and n2: "c \<noteq> ''total_passengers_rolling_'' @ str_nat w @ ''d''"
      by (auto simp: rolling_labels_def)
    have "column ?df2 c = column ?df1 c"
      by (rule column_assign_other [OF l2 n2])
    also have "\<dots> = column df c"
      by (rule column_assign_other [OF l1 n1])
    finally show ?thesis .
  qed
  have sub: "c \<notin> rolling_labels ws" if "c \<notin> rolling_labels (w # ws)"
    using that unfolding rolling_labels_def by auto
  have step: "add_rolling (w # ws) df = add_rolling ws ?df2"
    by (simp only: add_rolling.simps Let_def)
  show ?case
  proof (intro conjI impI)
    show "map date (rows (add_rolling (w # ws) df)) = map date (rows df)"
      unfolding step using Cons.IH [of ?df2] d by simp
    assume n: "c \<notin> rolling_labels (w # ws)"
    have "column (add_rolling ws ?df2) c = column ?df2 c"
      using Cons.IH [of ?df2] sub [OF n] by blast
    then show "column (add_rolling (w # ws) df) c = column df c"
      unfolding step using c [OF n] by simp
  qed
qed

lemma dates_add_lags: "map date (rows (add_lags lags df)) = map date (rows df)"
  using add_lags_frame by blast

lemma column_add_lags:
  "c \<notin> lag_labels lags \<Longrightarrow> column (add_lags lags df) c = column df c"
  using add_lags_frame by blast

lemma dates_add_rolling: "map date (rows (add_rolling ws df)) = map date (rows df)"
  using add_rolling_frame by blast

lemma column_add_rolling:
  "c \<notin> rolling_labels ws \<Longrightarrow> column (add_rolling ws df) c = column df c"
  using add_rolling_frame by blast

lemma add_lag_features_Inr:
  assumes "add_lag_features self merged_df lag_days = Inr out"
    and "current_table self merged_df = Some df"
  shows "out = add_rolling [3, 7, 14] (add_lags lag_days (sort_values_date df))"
    and "''AQI'' \<in> columns df" and "''total_passengers'' \<in> columns df"
  using assms
  by (auto simp: add_lag_features_def Let_def columns_sorted split: if_splits)

lemma without_labels_update:
  "c \<in> N \<Longrightarrow> without_labels N (r\<lparr>vals := (vals r)(c := x)\<rparr>) = without_labels N r"
  by (auto simp: without_labels_def fun_eq_iff)

lemma vals_without_labels: "c \<notin> N \<Longrightarrow> vals (without_labels N r) c = vals r c"
  by (simp add: without_labels_def)

lemma date_without_labels: "date (without_labels N r) = date r"
  by (simp add: without_labels_def)

lemma without_assign:
  assumes "c \<in> N" and "length xs = length (rows df)"
  shows "map (without_labels N) (rows (assign df c xs)) = map (without_labels N) (rows df)"
proof -
  have "map (without_labels N) (rows (assign df c xs))
      = map (\<lambda>(r, x). without_labels N r) (zip (rows df) xs)"
    using assms(1) by (simp add: assign_def case_prod_unfold comp_def without_labels_update)
  also have "\<dots> = map (without_labels N) (rows df)"
    using assms(2) by (intro map_zip_fst) simp
  finally show ?thesis .
qed

lemma lag_labels_Cons:
  "lag_labels (lag # lags)
     = insert (''AQI_lag_'' @ str_int lag)
         (insert (''total_passengers_lag_'' @ str_int lag) (lag_labels lags))"
  unfolding lag_labels_def by auto

lemma rolling_labels_Cons:
  "rolling_labels (w # ws)
     = insert (''AQI_rolling_'' @ str_nat w @ ''d'')
         (insert (''total_passengers_rolling_'' @ str_nat w @ ''d'') (rolling_labels ws))"
  unfolding rolling_labels_def by auto

lemma add_lags_rows:
  "lag_labels lags \<subseteq> N \<Longrightarrow>
     map (without_labels N) (rows (add_lags lags df)) = map (without_labels N) (rows df)
     \<and> columns (add_lags lags df) = columns df \<union> lag_labels lags"
proof (induction lags arbitrary: df)
  case Nil
  then show ?case by (simp add: lag_labels_def)
next
  case (Cons lag lags)
  let ?a = "''AQI_lag_'' @ str_int lag" and ?t = "''total_passengers_lag_'' @ str_int lag"
  let ?df1 = "assign df ?a (shift lag (column df ''AQI''))"
  let ?df2 = "assign ?df1 ?t (shift lag (column ?df1 ''total_passengers''))"
  from Cons.prems have a: "?a \<in> N" and t: "?t \<in> N" and sub: "lag_labels lags \<subseteq> N"
    unfolding lag_labels_Cons by blast+
  have l1: "length (shift lag (column df ''AQI'')) = length (rows df)"
    by (simp add: length_shift length_column)
  have l2: "length (shift lag (column ?df1 ''total_passengers'')) = length (rows ?df1)"
    by (simp add: length_shift length_column)
  have r: "map (without_labels N) (rows ?df2) = map (without_labels N) (rows df)"
    by (simp only: without_assign [OF t l2] without_assign [OF a l1])
  have c: "columns ?df2 = insert ?t (insert ?a (columns df))"
    by (simp only: columns_assign)
  have step: "add_lags (lag # lags) df = add_lags lags ?df2"
    by (simp only: add_lags.simps Let_def)
  from Cons.IH [OF sub, of ?df2]
  have ih1: "map (without_labels N) (rows (add_lags lags ?df2))
      = map (without_labels N) (rows ?df2)"
    and ih2: "columns (add_lags lags ?df2) = columns ?df2 \<union> lag_labels lags"
    by blast+
  show ?case
  proof (rule conjI)
    show "map (without_labels N) (rows (add_lags (lag # lags) df))
        = map (without_labels N) (rows df)"
      unfolding step using ih1 r by (rule trans)
    show "columns (add_lags (lag # lags) df) = columns df \<union> lag_labels (lag # lags)"
      unfolding step ih2 c lag_labels_Cons by blast
  qed
qed

lemma add_rolling_rows:
  "rolling_labels ws \<subseteq> N \<Longrightarrow>
     map (without_labels N) (rows (add_rolling ws df)) = map (without_labels N) (rows df)
     \<and> columns (add_rolling ws df) = columns df \<union> rolling_labels ws"
proof (induction ws arbitrary: df)
  case Nil
  then show ?case by (simp add: rolling_labels_def)
next
  case (Cons w ws)
  let ?a = "''AQI_rolling_'' @ str_nat w @ ''d''"
    and ?t = "''total_passengers_rolling_'' @ str_nat w @ ''d''"
  let ?df1 = "assign df ?a (rolling_mean w (column df ''AQI''))"
  let ?df2 = "assign ?df1 ?t (rolling_mean w (column ?df1 ''total_passengers''))"
  from Cons.prems have a: "?a \<in> N" and t: "?t \<in> N" and sub: "rolling_labels ws \<subseteq> N"
    unfolding rolling_labels_Cons by blast+
  have l1: "length (rolling_mean w (column df ''AQI'')) = length (rows df)"
    by (simp add: length_rolling_mean length_column)
  have l2: "length (rolling_mean w (column ?df1 ''total_passengers'')) = length (rows ?df1)"
    by (simp add: length_rolling_mean length_column)
  have r: "map (without_labels N) (rows ?df2) = map (without_labels N) (rows df)"
    by (simp only: without_assign [OF t l2] without_assign [OF a l1])
  have c: "columns ?df2 = insert ?t (insert ?a (columns df))"
    by (simp only: columns_assign)
  have step: "add_rolling (w # ws) df = add_rolling ws ?df2"
    by (simp only: add_rolling.simps Let_def)
  from Cons.IH [OF sub, of ?df2]
  have ih1: "map (without_labels N) (rows (add_rolling ws ?df2))
      = map (without_labels N) (rows ?df2)"
    and ih2: "columns (add_rolling ws ?df2) = columns ?df2 \<union> rolling_labels ws"
    by blast+
  show ?case
  proof (rule conjI)
    show "map (without_labels N) (rows (add_rolling (w # ws) df))
        = map (without_labels N) (rows df)"
      unfolding step using ih1 r by (rule trans)
    show "columns (add_rolling (w # ws) df) = columns df \<union> rolling_labels (w # ws)"
      unfolding step ih2 c rolling_labels_Cons by blast
  qed
qed

lemma add_lag_features_rows:
  assumes "add_lag_features self merged_df lag_days = Inr out"
    and "current_table self merged_df = Some df"
  shows "map (without_labels (new_labels lag_days)) (rows out)
           = map (without_labels (new_labels lag_days)) (sort_key date (rows df))"
    and "columns out = columns df \<union> new_labels lag_days"
proof -
  let ?N = "new_labels lag_days" and ?S = "sort_values_date df"
  let ?L = "add_lags lag_days ?S"
  have out: "out = add_rolling [3, 7, 14] ?L"
    by (rule add_lag_features_Inr(1) [OF assms])
  have l: "lag_labels lag_days \<subseteq> ?N" and w: "rolling_labels [3, 7, 14] \<subseteq> ?N"
    unfolding new_labels_def by blast+
  from add_lags_rows [OF l, of ?S]
  have l1: "map (without_labels ?N) (rows ?L) = map (without_labels ?N) (rows ?S)"
    and l2: "columns ?L = columns ?S \<union> lag_labels lag_days"
    by blast+
  from add_rolling_rows [OF w, of ?L]
  have w1: "map (without_labels ?N) (rows (add_rolling [3, 7, 14] ?L))
      = map (without_labels ?N) (rows ?L)"
    and w2: "columns (add_rolling [3, 7, 14] ?L) = columns ?L \<union> rolling_labels [3, 7, 14]"
    by blast+
  have s: "rows ?S = sort_key date (rows df)"
    by (simp add: sort_values_date_def)
  show "map (without_labels ?N) (rows out) = map (without_labels ?N) (sort_key date (rows df))"
    unfolding out w1 l1 s ..
  show "columns out = columns df \<union> ?N"
    unfolding out w2 l2 columns_sorted new_labels_def by blast
qed

text \<open>
  Claim C8, as the code has it. The claim says that the rows are not sorted again; line
  208 sorts them by date before any feature is computed, and the counterexample, a
  table with the days 2 and 1 in this order, comes back with the days 1 and 2, each
  with its own AQI value. What holds, a row being compared with another one in its
  date, its category and every cell that is not of one of the new columns
  (\<open>without_labels\<close>): the rows of the result are the rows of the input, each as
  often as there, in ascending order of the date; the columns of the result are those
  of the input and the new ones; and when the input is in strictly ascending order of
  the date already, the rows come back in the order of the input, every column that
  is not one of the new ones unchanged.
\<close>

theorem add_lag_features_sorts_by_date:
  assumes "add_lag_features self merged_df lag_days = Inr out"
    and "current_table self merged_df = Some df"
  shows "map date (rows out) = sort (map date (rows df))
       \<and> mset (map (without_labels (new_labels lag_days)) (rows out))
           = mset (map (without_labels (new_labels lag_days)) (rows df))
       \<and> columns out = columns df \<union> new_labels lag_days
       \<and> (sorted_wrt (<) (map date (rows df)) \<longrightarrow>
            map (without_labels (new_labels lag_days)) (rows out)
              = map (without_labels (new_labels lag_days)) (rows df)
            \<and> map date (rows out) = map date (rows df)
            \<and> map AQI_Category (rows out) = map AQI_Category (rows df)
            \<and> (\<forall>c. c \<notin> new_labels lag_days \<longrightarrow> column out c = column df c))"
proof -
  let ?N = "new_labels lag_days"
  let ?w = "without_labels ?N"
  have rows: "map ?w (rows out) = map ?w (sort_key date (rows df))"
    and cols: "columns out = columns df \<union> ?N"
    by (rule add_lag_features_rows [OF assms])+
  have d: "map date (rows r) = map (date \<circ> ?w) (rows r)" for r :: frame
    by (simp add: comp_def date_without_labels)
  have "map date (rows out) = map date (map ?w (rows out))"
    by (simp add: comp_def date_without_labels)
  also have "\<dots> = map date (sort_key date (rows df))"
    unfolding rows by (simp add: comp_def date_without_labels)
  also have "\<dots> = sort (map date (rows df))"
    by (rule map_sort_key)
  finally have first: "map date (rows out) = sort (map date (rows df))" .
  have second: "mset (map ?w (rows out)) = mset (map ?w (rows df))"
    unfolding rows by simp
  have third: "map ?w (rows out) = map ?w (rows df)
      \<and> map date (rows out) = map date (rows df)
      \<and> map AQI_Category (rows out) = map AQI_Category (rows df)
      \<and> (\<forall>c. c \<notin> ?N \<longrightarrow> column out c = column df c)"
    if "sorted_wrt (<) (map date (rows df))"
  proof -
    from that have "sorted (map date (rows df))"
      by (rule strict_sorted_imp_sorted)
    then have "sort_key date (rows df) = rows df"
      by (rule sort_key_id_if_sorted)
    with rows have eq: "map ?w (rows out) = map ?w (rows df)"
      by simp
    have "map (f \<circ> ?w) (rows out) = map (f \<circ> ?w) (rows df)" for f :: "row \<Rightarrow> 'b"
      using arg_cong [OF eq, of "map f"] by simp
    note via = this
    have "map date (rows out) = map date (rows df)"
      using via [of date] by (simp add: comp_def date_without_labels)
    moreover have "map AQI_Category (rows out) = map AQI_Category (rows df)"
      using via [of AQI_Category] by (simp add: comp_def without_labels_def)
    moreover have "column out c = column df c" if "c \<notin> ?N" for c
      using via [of "\<lambda>r. vals r c"] that
      by (simp add: comp_def column_def vals_without_labels)
    ultimately show ?thesis
      using eq by blast
  qed
  from first second cols third show ?thesis
    by blast
qed

theorem add_lag_features_counterexample:
  "map_sum id frame_dates (add_lag_features init (Some merged_unsorted) [1, 3, 7]) = Inr [1, 2]
   \<and> frame_dates merged_unsorted = [2, 1]
   \<and> map_sum id (column_of ''AQI'') (add_lag_features init (Some merged_unsorted) [1, 3, 7])
       = Inr [Some 80, Some 120]
   \<and> column_of ''AQI'' merged_unsorted = [Some 120, Some 80]"
proof -
  define S where "S = sort_values_date merged_unsorted"
  define out where "out = add_rolling [3, 7, 14] (add_lags [1, 3, 7] S)"
  have n: "''AQI'' \<notin> rolling_labels [3, 7, 14]" "''AQI'' \<notin> lag_labels [1, 3, 7]"
    by (auto simp: lag_labels_def rolling_labels_def)
  have run: "add_lag_features init (Some merged_unsorted) [1, 3, 7] = Inr out"
    unfolding out_def S_def
    by (simp add: add_lag_features_def current_table_def columns_sorted merged_unsorted_def
        del: add_rolling.simps add_lags.simps)
  have "map date (rows S) = [1, 2]"
    by (simp add: S_def sort_values_date_def merged_unsorted_def mk_row_def)
  then have d: "frame_dates out = [1, 2]"
    unfolding out_def frame_dates_def by (simp only: dates_add_rolling dates_add_lags)
  have "column S ''AQI'' = [Some 80, Some 120]"
    by (simp add: S_def sort_values_date_def merged_unsorted_def mk_row_def column_def)
  then have c: "column_of ''AQI'' out = [Some 80, Some 120]"
    unfolding out_def column_of_def
    by (simp only: column_add_rolling [OF n(1)] column_add_lags [OF n(2)])
  have d0: "frame_dates merged_unsorted = [2, 1]"
    by (simp add: frame_dates_def merged_unsorted_def mk_row_def)
  have c0: "column_of ''AQI'' merged_unsorted = [Some 120, Some 80]"
    by (simp add: column_of_def column_def merged_unsorted_def mk_row_def)
  have "map_sum id frame_dates (add_lag_features init (Some merged_unsorted) [1, 3, 7])
      = Inr [1, 2]"
    unfolding run using d by simp
  moreover
  have "map_sum id (column_of ''AQI'') (add_lag_features init (Some merged_unsorted) [1, 3, 7])
      = Inr [Some 80, Some 120]"
    unfolding run using c by simp
  ultimately show ?thesis
    using d0 c0 by (intro conjI)
qed

theorem add_lag_features_sorts_by_date_witness:
  "current_table init (Some merged_unsorted) = Some merged_unsorted
   \<and> (\<exists>out. add_lag_features init (Some merged_unsorted) [1, 3, 7] = Inr out
          \<and> map date (rows out) = [1, 2]
          \<and> mset (map (without_labels (new_labels [1, 3, 7])) (rows out))
              = mset (map (without_labels (new_labels [1, 3, 7])) (rows merged_unsorted))
          \<and> columns out = columns merged_unsorted \<union> new_labels [1, 3, 7])
   \<and> current_table init (Some merged_two_days) = Some merged_two_days
   \<and> sorted_wrt (<) (map date (rows merged_two_days))
   \<and> ''AQI'' \<notin> new_labels [1, 3, 7]
   \<and> (\<exists>out. add_lag_features init (Some merged_two_days) [1, 3, 7] = Inr out
          \<and> map date (rows out) = [1, 2]
          \<and> map AQI_Category (rows out) = [Some Moderate, Some Unhealthy_for_Sensitive]
          \<and> column out ''AQI'' = [Some 80, Some 120])"
proof -
  have c1: "current_table init (Some merged_unsorted) = Some merged_unsorted"
    and c2: "current_table init (Some merged_two_days) = Some merged_two_days"
    by (simp_all add: current_table_def)
  obtain out1 where o1: "add_lag_features init (Some merged_unsorted) [1, 3, 7] = Inr out1"
    by (simp add: add_lag_features_def current_table_def columns_sorted merged_unsorted_def
        del: add_rolling.simps add_lags.simps)
  obtain out2 where o2: "add_lag_features init (Some merged_two_days) [1, 3, 7] = Inr out2"
    by (simp add: add_lag_features_def current_table_def columns_sorted merged_two_days_def
        del: add_rolling.simps add_lags.simps)
  have s: "sorted_wrt (<) (map date (rows merged_two_days))"
    by (simp add: merged_two_days_def mk_row_def)
  have n: "''AQI'' \<notin> new_labels [1, 3, 7]"
    by (auto simp: new_labels_def lag_labels_def rolling_labels_def)
  note th1 = add_lag_features_sorts_by_date [OF o1 c1]
  from th1 have "map date (rows out1) = [1, 2]"
    by (simp add: merged_unsorted_def mk_row_def)
  moreover from th1
  have "mset (map (without_labels (new_labels [1, 3, 7])) (rows out1))
      = mset (map (without_labels (new_labels [1, 3, 7])) (rows merged_unsorted))"
    and "columns out1 = columns merged_unsorted \<union> new_labels [1, 3, 7]"
    by blast+
  ultimately have e1: "\<exists>out. add_lag_features init (Some merged_unsorted) [1, 3, 7] = Inr out
          \<and> map date (rows out) = [1, 2]
          \<and> mset (map (without_labels (new_labels [1, 3, 7])) (rows out))
              = mset (map (without_labels (new_labels [1, 3, 7])) (rows merged_unsorted))
          \<and> columns out = columns merged_unsorted \<union> new_labels [1, 3, 7]"
    using o1 by (intro exI conjI)
  from add_lag_features_sorts_by_date [OF o2 c2] s n
  have "map date (rows out2) = map date (rows merged_two_days)
      \<and> map AQI_Category (rows out2) = map AQI_Category (rows merged_two_days)
      \<and> column out2 ''AQI'' = column merged_two_days ''AQI''"
    by blast
  then have "map date (rows out2) = [1, 2]"
    and "map AQI_Category (rows out2) = [Some Moderate, Some Unhealthy_for_Sensitive]"
    and "column out2 ''AQI'' = [Some 80, Some 120]"
    by (simp_all add: merged_two_days_def mk_row_def column_def)
  with o2 have e2: "\<exists>out. add_lag_features init (Some merged_two_days) [1, 3, 7] = Inr out
          \<and> map date (rows out) = [1, 2]
          \<and> map AQI_Category (rows out) = [Some Moderate, Some Unhealthy_for_Sensitive]
          \<and> column out ''AQI'' = [Some 80, Some 120]"
    by (intro exI conjI)
  from c1 e1 c2 s n e2 show ?thesis
    by (intro conjI)
qed
end
